theory Spec2Isabelle
  imports Main
begin

section \<open>Common data\<close>

text \<open>
  Go values of type \<^verbatim>\<open>interface{}\<close> as they come out of the parser: nested maps of
  primitives and lists. A Go \<^verbatim>\<open>map[string]interface{}\<close> is an association list read
  with \<^const>\<open>map_of\<close>; a type assertion is a \<^theory_text>\<open>case\<close> on the constructor.
\<close>

datatype goValue =
    VNil
  | VBool bool
  | VNum int
  | VStr string
  | VList "goValue list"
  | VMap "(string \<times> goValue) list"

type_synonym element = "(string \<times> goValue) list"
type_synonym variables = "string \<rightharpoonup> goValue"

text \<open>A Go \<^verbatim>\<open>error\<close> is represented by its message; \<^verbatim>\<open>fmt.Errorf\<close> concatenates.\<close>

type_synonym error = string

datatype go_panic = SliceBoundsOutOfRange | MakeSliceLenOutOfRange

datatype TokenState = ACTIVE | WAITING | COMPLETED | CANCELLED

text \<open>
  \<^verbatim>\<open>models.Token\<close> is not among the sources; the record has the fields the sources read
  and write, with the attributes the specification lists for a token.
\<close>

record token =
  TokenID :: string
  ProcessInstanceID :: string
  ProcessKey :: string
  CurrentElementID :: string
  State :: TokenState
  WaitingFor :: string
  Variables :: variables
  ExecutionContext :: variables
  BoundaryTimerIDs :: "string list"
  UpdatedAt :: int

text \<open>
  Modelled from the spec: \<^verbatim>\<open>Token.IsWaiting\<close> (\<^verbatim>\<open>models.Token\<close> is missing): the token is
  in WAITING state.
\<close>

definition IsWaiting :: "token \<Rightarrow> bool" where
  "IsWaiting t = (State t = WAITING)"

text \<open>
  Modelled from the spec: \<^verbatim>\<open>Token.GetExecutionContext\<close> and \<^verbatim>\<open>Token.SetExecutionContext\<close>
  (\<^verbatim>\<open>models.Token\<close> is missing): the execution context is a string-to-value scratchpad;
  the getter returns the value and whether the key exists, the setter stores the value.
\<close>

definition GetExecutionContext :: "token \<Rightarrow> string \<Rightarrow> goValue option" where
  "GetExecutionContext t k = ExecutionContext t k"

definition SetExecutionContext :: "token \<Rightarrow> string \<Rightarrow> goValue \<Rightarrow> token" where
  "SetExecutionContext t k v = t\<lparr>ExecutionContext := (ExecutionContext t)(k \<mapsto> v)\<rparr>"

text \<open>
  A civil time with its zone offset (seconds east of UTC) and its Unix seconds,
  standing for Go's \<^verbatim>\<open>time.Time\<close>. The fields are Go \<^verbatim>\<open>int\<close>s, as \<^verbatim>\<open>Format\<close> reads them.
\<close>

record time =
  Year :: int
  Month :: int
  Day :: int
  Hour :: int
  Minute :: int
  Second :: int
  ZoneOffset :: int
  UnixSeconds :: int

text \<open>
  \<^verbatim>\<open>models.ProcessInstance\<close> is not among the sources; the record has the fields the
  adapters read. \<^verbatim>\<open>State\<close> has a string type in Go (the adapter converts it with
  \<^verbatim>\<open>string(instance.State)\<close>).
\<close>

record process_instance =
  InstanceID :: string
  ProcessID :: string
  ProcessName :: string
  InstanceState :: string
  CurrentActivity :: string
  StartedAt :: time
  InstanceUpdatedAt :: time
  CompletedAt :: "time option"
  InstanceVariables :: variables

text \<open>
  Calls made on the collaborators (the process component, the storage and the token
  movement), in the order the code makes them.
\<close>

datatype call =
    CallCancelBoundaryTimersForToken string
  | CallUpdateToken token
  | CallMoveTokenToNextElements token string
  | CallStartProcessInstance string variables

section \<open>Callback helper (package process)\<close>

text \<open>
  The durable store as the specification lays it out. Only the token records are read by
  the code modelled here; the other record kinds are carried along unread.
\<close>

record ('i, 'tm, 's, 'j) storage =
  tokens :: "string \<rightharpoonup> token"
  instances :: "string \<rightharpoonup> 'i"
  timers :: "string \<rightharpoonup> 'tm"
  subscriptions :: "string \<rightharpoonup> 's"
  jobs :: "string \<rightharpoonup> 'j"

text \<open>
  Modelled from the spec: \<^verbatim>\<open>storage.LoadToken\<close> (the storage package is missing): a read
  of the token record stored under \<^verbatim>\<open>tokenID\<close>, an error when there is none.
\<close>

definition LoadToken :: "('i, 'tm, 's, 'j) storage \<Rightarrow> string \<Rightarrow> error + token" where
  "LoadToken st tokenID =
     (case tokens st tokenID of None \<Rightarrow> Inl ''token not found'' | Some t \<Rightarrow> Inr t)"

text \<open>
  \<^verbatim>\<open>CallbackHelper.LoadAndValidateToken\<close>. The result is paired with the storage after
  the call; the logger calls are left out.
\<close>

definition LoadAndValidateToken ::
  "('i, 'tm, 's, 'j) storage \<Rightarrow> string \<Rightarrow> string \<Rightarrow> (error + token) \<times> ('i, 'tm, 's, 'j) storage" where
  "LoadAndValidateToken st tokenID expectedWaitingFor =
     (case LoadToken st tokenID of
        Inl err \<Rightarrow> (Inl (''failed to load token '' @ tokenID @ '': '' @ err), st)
      | Inr token \<Rightarrow>
          if \<not> IsWaiting token \<or> WaitingFor token \<noteq> expectedWaitingFor
          then (Inl (''token '' @ tokenID @ '' is not waiting for '' @ expectedWaitingFor), st)
          else (Inr token, st))"

text \<open>
  The collaborators of \<^verbatim>\<open>CallbackHelper\<close> and \<^verbatim>\<open>CallActivityExecutor\<close> are Go interfaces
  whose implementations are not among the sources, and so are the methods
  \<^verbatim>\<open>ClearWaitingFor\<close> and \<^verbatim>\<open>MergeVariables\<close> of \<^verbatim>\<open>models.Token\<close>. They are parameters: each
  collaborator call takes the world \<open>'w\<close> it acts on and returns its result with the new
  world. \<^verbatim>\<open>MoveTokenToNextElements\<close> receives the token by pointer and also returns it.
\<close>

record 'w collaborators =
  ClearWaitingFor :: "token \<Rightarrow> token"
  MergeVariables :: "token \<Rightarrow> variables \<Rightarrow> token"
  CancelBoundaryTimersForToken :: "string \<Rightarrow> 'w \<Rightarrow> error option \<times> 'w"
  UpdateToken :: "token \<Rightarrow> 'w \<Rightarrow> error option \<times> 'w"
  MoveTokenToNextElements :: "token \<Rightarrow> string \<Rightarrow> 'w \<Rightarrow> error option \<times> token \<times> 'w"
  StartProcessInstance :: "string \<Rightarrow> variables \<Rightarrow> 'w \<Rightarrow> (error + process_instance) \<times> 'w"

text \<open>
  \<^verbatim>\<open>CallbackHelper.ProcessCallbackAndContinue\<close>. It returns the error (\<open>None\<close> for
  \<^verbatim>\<open>nil\<close>), the token as the caller sees it afterwards, the new world and the collaborator
  calls made, in order. A \<^verbatim>\<open>nil\<close> variables map is \<open>None\<close>.
\<close>

definition ProcessCallbackAndContinue ::
  "'w collaborators \<Rightarrow> token \<Rightarrow> string \<Rightarrow> variables option \<Rightarrow> 'w
     \<Rightarrow> error option \<times> token \<times> 'w \<times> call list" where
  "ProcessCallbackAndContinue ch token0 elementID vars w0 =
     (let token1 = ClearWaitingFor ch token0;
          token2 = (case vars of None \<Rightarrow> token1 | Some vs \<Rightarrow> MergeVariables ch token1 vs);
          (cancelErr, w1) = CancelBoundaryTimersForToken ch (TokenID token2) w0;
          calls1 = [CallCancelBoundaryTimersForToken (TokenID token2)];
          (updateErr, w2) = UpdateToken ch token2 w1;
          calls2 = calls1 @ [CallUpdateToken token2]
      in case updateErr of
           Some err \<Rightarrow> (Some (''failed to update token: '' @ err), token2, w2, calls2)
         | None \<Rightarrow>
             (let currentElementID =
                    (if CurrentElementID token2 = '''' then elementID else CurrentElementID token2);
                  (moveErr, token3, w3) = MoveTokenToNextElements ch token2 currentElementID w2;
                  calls3 = calls2 @ [CallMoveTokenToNextElements token2 currentElementID]
              in case moveErr of
                   Some err \<Rightarrow>
                     (Some (''failed to move token to next elements: '' @ err), token3, w3, calls3)
                 | None \<Rightarrow> (None, token3, w3, calls3)))"

text \<open>
  \<^verbatim>\<open>models.BPMNProcess\<close> is not among the sources; of its fields only \<^verbatim>\<open>Elements\<close> is read.
  Go ranges over a map in an unspecified order: the order of the association list stands
  for the order of one run.
\<close>

record BPMNProcess =
  Elements :: "(string \<times> goValue) list"

text \<open>The inner loop of \<^verbatim>\<open>findTargetElementByFlowID\<close> over \<^verbatim>\<open>incomingList\<close>.\<close>

fun incomingListHasFlow :: "goValue list \<Rightarrow> string \<Rightarrow> bool" where
  "incomingListHasFlow [] flowID = False"
| "incomingListHasFlow (item # items) flowID =
     (case item of
        VStr incomingFlow \<Rightarrow>
          if incomingFlow = flowID then True else incomingListHasFlow items flowID
      | _ \<Rightarrow> incomingListHasFlow items flowID)"

text \<open>The outer loop of \<^verbatim>\<open>findTargetElementByFlowID\<close> over \<^verbatim>\<open>bpmnProcess.Elements\<close>.\<close>

fun findTargetElementLoop :: "(string \<times> goValue) list \<Rightarrow> string \<Rightarrow> string" where
  "findTargetElementLoop [] flowID = ''''"
| "findTargetElementLoop ((elementID, element) # rest) flowID =
     (case element of
        VMap elementMap \<Rightarrow>
          (case map_of elementMap ''incoming'' of
             None \<Rightarrow> findTargetElementLoop rest flowID
           | Some incoming \<Rightarrow>
               (case incoming of
                  VList incomingList \<Rightarrow>
                    if incomingListHasFlow incomingList flowID then elementID
                    else findTargetElementLoop rest flowID
                | VStr incomingStr \<Rightarrow>
                    if incomingStr = flowID then elementID
                    else findTargetElementLoop rest flowID
                | _ \<Rightarrow> findTargetElementLoop rest flowID))
      | _ \<Rightarrow> findTargetElementLoop rest flowID)"

definition findTargetElementByFlowID :: "string \<Rightarrow> BPMNProcess \<Rightarrow> string" where
  "findTargetElementByFlowID flowID bpmnProcess =
     findTargetElementLoop (Elements bpmnProcess) flowID"

text \<open>
  The specification's words for C6: an element lists flow \<open>f\<close> among its incoming flows
  when it is a map whose \<^verbatim>\<open>incoming\<close> attribute is a list containing the string \<open>f\<close> or
  is the string \<open>f\<close> itself.
\<close>

definition lists_incoming :: "string \<Rightarrow> goValue \<Rightarrow> bool" where
  "lists_incoming f element =
     (\<exists>elementMap. element = VMap elementMap \<and>
        ((\<exists>incomingList. map_of elementMap ''incoming'' = Some (VList incomingList) \<and>
             VStr f \<in> set incomingList)
         \<or> map_of elementMap ''incoming'' = Some (VStr f)))"

section \<open>Call activity executor (package process)\<close>

record ExecutionResult =
  Success :: bool
  TokenUpdated :: bool
  NextElements :: "string list"
  ResultWaitingFor :: string
  Completed :: bool
  ResultError :: string

text \<open>The inner loop of \<^verbatim>\<open>extractCalledProcessID\<close> over \<^verbatim>\<open>extensionsList\<close>.\<close>

fun extractFromExtensions :: "goValue list \<Rightarrow> string option" where
  "extractFromExtensions [] = None"
| "extractFromExtensions (ext # rest) =
     (case ext of
        VMap extMap \<Rightarrow>
          if map_of extMap ''type'' \<noteq> Some (VStr ''calledElement'')
          then extractFromExtensions rest
          else (case map_of extMap ''called_element'' of
                  None \<Rightarrow> extractFromExtensions rest
                | Some calledElement \<Rightarrow>
                    (case calledElement of
                       VMap calledElementMap \<Rightarrow>
                         (case map_of calledElementMap ''process_id'' of
                            None \<Rightarrow> extractFromExtensions rest
                          | Some processID \<Rightarrow>
                              (case processID of
                                 VStr processIDStr \<Rightarrow> Some processIDStr
                               | _ \<Rightarrow> extractFromExtensions rest))
                     | _ \<Rightarrow> extractFromExtensions rest))
      | _ \<Rightarrow> extractFromExtensions rest)"

text \<open>The outer loop of \<^verbatim>\<open>extractCalledProcessID\<close> over \<^verbatim>\<open>extensionElementsList\<close>.\<close>

fun extractFromExtensionElements :: "goValue list \<Rightarrow> string option" where
  "extractFromExtensionElements [] = None"
| "extractFromExtensionElements (extElem # rest) =
     (case extElem of
        VMap extElemMap \<Rightarrow>
          if map_of extElemMap ''type'' \<noteq> Some (VStr ''extensionElements'')
          then extractFromExtensionElements rest
          else (case map_of extElemMap ''extensions'' of
                  None \<Rightarrow> extractFromExtensionElements rest
                | Some extensions \<Rightarrow>
                    (case extensions of
                       VList extensionsList \<Rightarrow>
                         (case extractFromExtensions extensionsList of
                            Some processIDStr \<Rightarrow> Some processIDStr
                          | None \<Rightarrow> extractFromExtensionElements rest)
                     | _ \<Rightarrow> extractFromExtensionElements rest))
      | _ \<Rightarrow> extractFromExtensionElements rest)"

definition extractCalledProcessID :: "element \<Rightarrow> error + string" where
  "extractCalledProcessID element =
     (case map_of element ''extension_elements'' of
        None \<Rightarrow> Inl ''no extension_elements found''
      | Some extensionElements \<Rightarrow>
          (case extensionElements of
             VList extensionElementsList \<Rightarrow>
               (case extractFromExtensionElements extensionElementsList of
                  Some processIDStr \<Rightarrow> Inr processIDStr
                | None \<Rightarrow> Inl ''called process ID not found in extension elements'')
           | _ \<Rightarrow> Inl ''extension_elements is not a list''))"

text \<open>The loop of \<^verbatim>\<open>Execute\<close> that collects the string items of \<^verbatim>\<open>outgoingList\<close>.\<close>

fun outgoingFlowIDs :: "goValue list \<Rightarrow> string list" where
  "outgoingFlowIDs [] = []"
| "outgoingFlowIDs (item # items) =
     (case item of
        VStr flowID \<Rightarrow> flowID # outgoingFlowIDs items
      | _ \<Rightarrow> outgoingFlowIDs items)"

definition nextElementsOf :: "goValue \<Rightarrow> string list" where
  "nextElementsOf outgoing =
     (case outgoing of
        VList outgoingList \<Rightarrow> outgoingFlowIDs outgoingList
      | VStr outgoingStr \<Rightarrow> [outgoingStr]
      | _ \<Rightarrow> [])"

text \<open>
  \<^verbatim>\<open>CallActivityExecutor.Execute\<close>. The Go error result is always \<^verbatim>\<open>nil\<close> and is left
  out; the function returns the execution result, the token as the caller sees it
  afterwards, the new world and the collaborator calls made. The activity name is used
  for logging only.
\<close>

definition callActivityKey :: "token \<Rightarrow> string" where
  "callActivityKey token = ''call_activity_executed:'' @ CurrentElementID token"

definition Execute ::
  "'w collaborators \<Rightarrow> token \<Rightarrow> element \<Rightarrow> 'w \<Rightarrow> ExecutionResult \<times> token \<times> 'w \<times> call list" where
  "Execute cae token element w =
     (if GetExecutionContext token (callActivityKey token) = Some (VBool True) then
        (case map_of element ''outgoing'' of
           None \<Rightarrow>
             (\<lparr>Success = True, TokenUpdated = True, NextElements = [],
               ResultWaitingFor = '''', Completed = True, ResultError = ''''\<rparr>, token, w, [])
         | Some outgoing \<Rightarrow>
             (\<lparr>Success = True, TokenUpdated = False, NextElements = nextElementsOf outgoing,
               ResultWaitingFor = '''', Completed = False, ResultError = ''''\<rparr>, token, w, []))
      else
        (case extractCalledProcessID element of
           Inl err \<Rightarrow>
             (\<lparr>Success = False, TokenUpdated = False, NextElements = [],
               ResultWaitingFor = '''', Completed = False,
               ResultError = ''failed to extract called process ID: '' @ err\<rparr>, token, w, [])
         | Inr calledProcessID \<Rightarrow>
             (case StartProcessInstance cae calledProcessID (Variables token) w of
                (Inl err, w') \<Rightarrow>
                  (\<lparr>Success = False, TokenUpdated = False, NextElements = [],
                    ResultWaitingFor = '''', Completed = False,
                    ResultError = ''failed to start child process: '' @ err\<rparr>, token, w',
                   [CallStartProcessInstance calledProcessID (Variables token)])
              | (Inr childInstance, w') \<Rightarrow>
                  (\<lparr>Success = True, TokenUpdated = True, NextElements = [],
                    ResultWaitingFor = ''call_activity:'' @ InstanceID childInstance,
                    Completed = False, ResultError = ''''\<rparr>,
                   SetExecutionContext token (callActivityKey token) (VBool True), w',
                   [CallStartProcessInstance calledProcessID (Variables token)]))))"

section \<open>Process component adapter (package server)\<close>

text \<open>
  Go's \<^verbatim>\<open>time.Time.Format\<close> with the layout \<^verbatim>\<open>2006-01-02T15:04:05Z07:00\<close>, following the
  standard library's algorithm. Every field is written by \<^verbatim>\<open>appendInt\<close>: a minus sign for
  a negative number, then its absolute value in decimal, zero-padded to the width. The
  zone is \<^verbatim>\<open>Z\<close> when the offset is zero; otherwise the offset is first converted to whole
  minutes by Go's integer division, which truncates towards zero
  (\<^verbatim>\<open>zone := offset / 60\<close>), the sign is taken from that number of minutes (so offsets of
  \<open>-59\<close> to \<open>-1\<close> seconds print \<^verbatim>\<open>+00:00\<close>), and its absolute value is written as
  \<^verbatim>\<open>hh:mm\<close>.
\<close>

definition digitChar :: "nat \<Rightarrow> char" where
  "digitChar d = ''0123456789'' ! (d mod 10)"

function decimal :: "nat \<Rightarrow> string" where
  "decimal n = (if n < 10 then [digitChar n] else decimal (n div 10) @ [digitChar (n mod 10)])"
  by pat_completeness auto
termination
  by (relation "measure id") auto

definition zeroPad :: "nat \<Rightarrow> nat \<Rightarrow> string" where
  "zeroPad width n = replicate (width - length (decimal n)) (CHR ''0'') @ decimal n"

definition appendInt :: "int \<Rightarrow> nat \<Rightarrow> string" where
  "appendInt x width = (if x < 0 then ''-'' else '''') @ zeroPad width (nat \<bar>x\<bar>)"

text \<open>Go's \<^verbatim>\<open>/\<close> and \<^verbatim>\<open>%\<close> on integers, with a non-zero divisor: the quotient truncates
  towards zero and the remainder has the sign of the dividend.\<close>

definition truncDiv :: "int \<Rightarrow> int \<Rightarrow> int" where
  "truncDiv a b = (if (a < 0) = (b < 0) then \<bar>a\<bar> div \<bar>b\<bar> else - (\<bar>a\<bar> div \<bar>b\<bar>))"

definition truncMod :: "int \<Rightarrow> int \<Rightarrow> int" where
  "truncMod a b = a - b * truncDiv a b"

definition formatZoneMinutes :: "int \<Rightarrow> string" where
  "formatZoneMinutes zone =
     appendInt (truncDiv zone 60) 2 @ '':'' @ appendInt (truncMod zone 60) 2"

definition formatZone :: "int \<Rightarrow> string" where
  "formatZone offset =
     (if offset = 0 then ''Z''
      else if truncDiv offset 60 < 0
           then ''-'' @ formatZoneMinutes (- truncDiv offset 60)
           else ''+'' @ formatZoneMinutes (truncDiv offset 60))"

definition formatRFC3339 :: "time \<Rightarrow> string" where
  "formatRFC3339 t =
     appendInt (Year t) 4 @ ''-'' @ appendInt (Month t) 2 @ ''-'' @ appendInt (Day t) 2 @ ''T''
     @ appendInt (Hour t) 2 @ '':'' @ appendInt (Minute t) 2 @ '':'' @ appendInt (Second t) 2
     @ formatZone (ZoneOffset t)"

text \<open>
  The status record with the fields the adapter fills in (the declaration of
  \<^verbatim>\<open>ProcessInstanceStatus\<close> the adapter was written against is not among the sources).
\<close>

record ProcessInstanceStatus =
  StatusInstanceID :: string
  StatusProcessID :: string
  StatusProcessName :: string
  Status :: string
  StatusState :: string
  StatusCurrentActivity :: string
  StatusStartedAt :: int
  StatusUpdatedAt :: int
  StatusCompletedAt :: string
  StatusVariables :: variables
  StatusCreatedAt :: string

text \<open>
  \<^verbatim>\<open>processComponentAdapter.GetProcessInstanceStatus\<close>; \<open>processComp\<close> is the method of the same
  name of the process component, whose implementation is not among the sources.
\<close>

definition GetProcessInstanceStatus ::
  "(string \<Rightarrow> error + process_instance) \<Rightarrow> string \<Rightarrow> error + ProcessInstanceStatus" where
  "GetProcessInstanceStatus processComp instanceID =
     (case processComp instanceID of
        Inl err \<Rightarrow> Inl err
      | Inr instance \<Rightarrow>
          (let completedAtStr =
                 (case CompletedAt instance of
                    None \<Rightarrow> ''''
                  | Some completedAt \<Rightarrow> formatRFC3339 completedAt)
           in Inr \<lparr>StatusInstanceID = InstanceID instance,
                   StatusProcessID = ProcessID instance,
                   StatusProcessName = ProcessName instance,
                   Status = InstanceState instance,
                   StatusState = InstanceState instance,
                   StatusCurrentActivity = CurrentActivity instance,
                   StatusStartedAt = UnixSeconds (StartedAt instance),
                   StatusUpdatedAt = UnixSeconds (InstanceUpdatedAt instance),
                   StatusCompletedAt = completedAtStr,
                   StatusVariables = InstanceVariables instance,
                   StatusCreatedAt = formatRFC3339 (StartedAt instance)\<rparr>))"

section \<open>Request ids (package handlers)\<close>

definition charset :: string where
  "charset = ''abcdefghijklmnopqrstuvwxyz0123456789''"

text \<open>
  The loop \<^verbatim>\<open>for i := range result { result[i] = charset[i%len(charset)] }\<close>, from index
  \<open>i\<close> on.
\<close>

function fillFromCharset :: "nat \<Rightarrow> char list \<Rightarrow> char list" where
  "fillFromCharset i result =
     (if i < length result
      then fillFromCharset (i + 1) (result[i := charset ! (i mod length charset)])
      else result)"
  by pat_completeness auto
termination
  by (relation "measure (\<lambda>(i, result). length result - i)") auto

text \<open>
  \<^verbatim>\<open>ProcessHandler.generateRandomString\<close>; \<^verbatim>\<open>make([]byte, length)\<close> panics on a negative
  length and gives \<open>length\<close> zero bytes otherwise.
\<close>

definition ProcessHandler_generateRandomString :: "int \<Rightarrow> go_panic + string" where
  "ProcessHandler_generateRandomString len =
     (if len < 0 then Inl MakeSliceLenOutOfRange
      else Inr (fillFromCharset 0 (replicate (nat len) (CHR 0x00))))"

text \<open>\<^verbatim>\<open>ParserHandler.generateRandomString\<close>, the same text in the parser handler.\<close>

definition ParserHandler_generateRandomString :: "int \<Rightarrow> go_panic + string" where
  "ParserHandler_generateRandomString len =
     (if len < 0 then Inl MakeSliceLenOutOfRange
      else Inr (fillFromCharset 0 (replicate (nat len) (CHR 0x00))))"

text \<open>
  \<^verbatim>\<open>getRequestID\<close> of both handlers, as a function of the value of the
  \<^verbatim>\<open>X-Request-ID\<close> header (empty when the header is absent).
\<close>

definition ProcessHandler_getRequestID :: "string \<Rightarrow> go_panic + string" where
  "ProcessHandler_getRequestID header =
     (if header \<noteq> '''' then Inr header
      else (case ProcessHandler_generateRandomString 8 of
              Inl p \<Rightarrow> Inl p
            | Inr r \<Rightarrow> Inr (''process_'' @ r)))"

definition ParserHandler_getRequestID :: "string \<Rightarrow> go_panic + string" where
  "ParserHandler_getRequestID header =
     (if header \<noteq> '''' then Inr header
      else (case ParserHandler_generateRandomString 8 of
              Inl p \<Rightarrow> Inl p
            | Inr r \<Rightarrow> Inr (''parser_'' @ r)))"

section \<open>Routing of jobs responses (package server)\<close>

text \<open>
  The Go slice expression \<^verbatim>\<open>s[i:j]\<close> on a string, which panics when the indices are out
  of range.
\<close>

definition slice :: "string \<Rightarrow> int \<Rightarrow> int \<Rightarrow> go_panic + string" where
  "slice s i j =
     (if 0 \<le> i \<and> i \<le> j \<and> j \<le> int (length s)
      then Inr (take (nat (j - i)) (drop (nat i) s))
      else Inl SliceBoundsOutOfRange)"

text \<open>The loop of \<^verbatim>\<open>findInString\<close>, from index \<open>i\<close> on.\<close>

function findInString_loop :: "string \<Rightarrow> string \<Rightarrow> int \<Rightarrow> go_panic + int" where
  "findInString_loop s substr i =
     (if i \<le> int (length s) - int (length substr) then
        (case slice s i (i + int (length substr)) of
           Inl p \<Rightarrow> Inl p
         | Inr w \<Rightarrow> if w = substr then Inr i else findInString_loop s substr (i + 1))
      else Inr (- 1))"
  by pat_completeness auto
termination
  by (relation "measure (\<lambda>(s, substr, i). nat (int (length s) - int (length substr) + 1 - i))")
     auto

definition findInString :: "string \<Rightarrow> string \<Rightarrow> go_panic + int" where
  "findInString s substr =
     (if length substr = 0 then Inr 0
      else if length s < length substr then Inr (- 1)
      else findInString_loop s substr 0)"

text \<open>Go's short-circuit \<^verbatim>\<open>&&\<close>, \<^verbatim>\<open>||\<close> and \<^verbatim>\<open>!\<close> on operands that may panic.\<close>

definition andAlso :: "go_panic + bool \<Rightarrow> go_panic + bool \<Rightarrow> go_panic + bool" where
  "andAlso a b = (case a of Inl p \<Rightarrow> Inl p | Inr x \<Rightarrow> if x then b else Inr False)"

definition orElse :: "go_panic + bool \<Rightarrow> go_panic + bool \<Rightarrow> go_panic + bool" where
  "orElse a b = (case a of Inl p \<Rightarrow> Inl p | Inr x \<Rightarrow> if x then Inr True else b)"

definition notB :: "go_panic + bool \<Rightarrow> go_panic + bool" where
  "notB a = (case a of Inl p \<Rightarrow> Inl p | Inr x \<Rightarrow> Inr (\<not> x))"

definition "contains" :: "string \<Rightarrow> string \<Rightarrow> go_panic + bool" where
  "contains s substr =
     andAlso (Inr (length s \<ge> length substr))
             (case findInString s substr of Inl p \<Rightarrow> Inl p | Inr r \<Rightarrow> Inr (r \<noteq> - 1))"

definition isJobCallback :: "string \<Rightarrow> go_panic + bool" where
  "isJobCallback response =
     andAlso (andAlso (Inr (length response > 0))
                      (notB (contains response ''_response'')))
             (orElse (contains response ''job_completed'') (contains response ''job_failed''))"

text \<open>The package's own \<^verbatim>\<open>min\<close>.\<close>

definition min_go :: "int \<Rightarrow> int \<Rightarrow> int" where
  "min_go a b = (if a < b then a else b)"

text \<open>
  One round of the loop of \<^verbatim>\<open>Core.processJobsResponses\<close> on a response taken from the
  channel: the response is handed to \<^verbatim>\<open>handleJobsResponse\<close>, which forwards it to the
  process component, or it is ignored and its first 100 bytes are logged.
\<close>

datatype jobs_routing = HandleJobsResponse string | IgnoreAPIResponse string

definition processJobsResponses_round :: "string \<Rightarrow> go_panic + jobs_routing" where
  "processJobsResponses_round response =
     (case isJobCallback response of
        Inl p \<Rightarrow> Inl p
      | Inr isCallback \<Rightarrow>
          if isCallback then Inr (HandleJobsResponse response)
          else (case slice response 0 (min_go (int (length response)) 100) of
                  Inl p \<Rightarrow> Inl p
                | Inr responsePrefix \<Rightarrow> Inr (IgnoreAPIResponse responsePrefix)))"

text \<open>
  The claims' words: \<open>substr\<close> occurs in \<open>s\<close> at index \<open>i\<close> when the slice
  \<^verbatim>\<open>s[i:i+len(substr)]\<close> is defined and equals \<open>substr\<close>; \<open>s\<close> contains \<open>substr\<close> when
  \<open>substr\<close> is a contiguous part of it.
\<close>

definition occurs_at :: "string \<Rightarrow> string \<Rightarrow> int \<Rightarrow> bool" where
  "occurs_at s substr i = (slice s i (i + int (length substr)) = Inr substr)"

definition has_substring :: "string \<Rightarrow> string \<Rightarrow> bool" where
  "has_substring s substr = (\<exists>pre post. s = pre @ substr @ post)"

section \<open>Parallel join (token scheduler)\<close>

text \<open>
  Modelled from the spec: the parallel join of the token scheduler (the scheduler's
  code is missing), section 4.1: a token arriving at a parallel join does not advance;
  the scheduler parks it and counts the parked tokens of the same instance whose
  current element is the join; when the count equals the number of incoming flows the
  parked tokens are merged into one, the survivor advances along the outgoing flows and
  the siblings become CANCELLED. The token store is a list of tokens with distinct ids.
  A parked token is one in WAITING state at the join; the survivor is the token whose
  arrival fires the join.
\<close>

definition parkToken :: "token list \<Rightarrow> string \<Rightarrow> string \<Rightarrow> token list" where
  "parkToken toks tokenID joinID =
     map (\<lambda>t. if TokenID t = tokenID
              then t\<lparr>CurrentElementID := joinID, State := WAITING\<rparr> else t) toks"

definition isParkedAt :: "string \<Rightarrow> string \<Rightarrow> token \<Rightarrow> bool" where
  "isParkedAt instanceID joinID t =
     (ProcessInstanceID t = instanceID \<and> CurrentElementID t = joinID \<and> State t = WAITING)"

definition parkedAt :: "token list \<Rightarrow> string \<Rightarrow> string \<Rightarrow> token list" where
  "parkedAt toks instanceID joinID = filter (isParkedAt instanceID joinID) toks"

text \<open>
  Modelled from the spec: the merge rule of section 4.2, last writer wins keyed by
  \<^verbatim>\<open>updatedAt\<close>, ties broken by \<^verbatim>\<open>tokenId\<close> ascending: the overlays are laid over one
  another in ascending order of (\<^verbatim>\<open>updatedAt\<close>, \<^verbatim>\<open>tokenId\<close>).
\<close>

fun string_less :: "string \<Rightarrow> string \<Rightarrow> bool" where
  "string_less [] [] = False"
| "string_less [] (y # ys) = True"
| "string_less (x # xs) [] = False"
| "string_less (x # xs) (y # ys) =
     ((of_char x :: nat) < of_char y \<or> (x = y \<and> string_less xs ys))"

definition writesBefore :: "token \<Rightarrow> token \<Rightarrow> bool" where
  "writesBefore a b =
     (UpdatedAt a < UpdatedAt b \<or>
      (UpdatedAt a = UpdatedAt b \<and> string_less (TokenID a) (TokenID b)))"

fun insertByWrite :: "token \<Rightarrow> token list \<Rightarrow> token list" where
  "insertByWrite t [] = [t]"
| "insertByWrite t (u # us) =
     (if writesBefore t u then t # u # us else u # insertByWrite t us)"

fun sortByWrite :: "token list \<Rightarrow> token list" where
  "sortByWrite [] = []"
| "sortByWrite (t # ts) = insertByWrite t (sortByWrite ts)"

definition mergeOverlays :: "token list \<Rightarrow> variables" where
  "mergeOverlays ts = foldl (\<lambda>acc t. acc ++ Variables t) Map.empty (sortByWrite ts)"

definition fireJoin :: "token list \<Rightarrow> string \<Rightarrow> string \<Rightarrow> string \<Rightarrow> token list" where
  "fireJoin toks survivorID instanceID joinID =
     (let merged = mergeOverlays (parkedAt toks instanceID joinID)
      in map (\<lambda>t. if isParkedAt instanceID joinID t
                  then (if TokenID t = survivorID
                        then t\<lparr>State := ACTIVE, Variables := merged\<rparr>
                        else t\<lparr>State := CANCELLED\<rparr>)
                  else t) toks)"

text \<open>
  The arrival of the token \<open>tokenID\<close> of instance \<open>instanceID\<close> at the join \<open>joinID\<close> with
  the given incoming and outgoing flows: the new token store and, when the join fires,
  the surviving token's id with the flows it advances along.
\<close>

definition arriveAtParallelJoin ::
  "token list \<Rightarrow> string \<Rightarrow> string \<Rightarrow> string \<Rightarrow> string list \<Rightarrow> string list
     \<Rightarrow> token list \<times> (string \<times> string list) option" where
  "arriveAtParallelJoin toks tokenID instanceID joinID incoming outgoing =
     (let parkedToks = parkToken toks tokenID joinID
      in if length (parkedAt parkedToks instanceID joinID) = length incoming
         then (fireJoin parkedToks tokenID instanceID joinID, Some (tokenID, outgoing))
         else (parkedToks, None))"

section \<open>Example data\<close>

text \<open>
  Collaborators over a world that records the ids of the child instances started.
  Cancelling boundary timers and starting an instance give the results passed in;
  updating and moving a token succeed. \<^verbatim>\<open>ClearWaitingFor\<close> empties the waiting key and
  makes the token active; \<^verbatim>\<open>MergeVariables\<close> lays the given variables over the token's.
\<close>

definition exampleCollaborators ::
  "error option \<Rightarrow> (string \<Rightarrow> error + process_instance) \<Rightarrow> (string list) collaborators" where
  "exampleCollaborators cancelResult startResult =
     \<lparr>ClearWaitingFor = (\<lambda>t. t\<lparr>WaitingFor := '''', State := ACTIVE\<rparr>),
      MergeVariables = (\<lambda>t vs. t\<lparr>Variables := Variables t ++ vs\<rparr>),
      CancelBoundaryTimersForToken = (\<lambda>tokenID w. (cancelResult, w)),
      UpdateToken = (\<lambda>t w. (None, w)),
      MoveTokenToNextElements = (\<lambda>t elementID w. (None, t, w)),
      StartProcessInstance =
        (\<lambda>processKey vars w.
           (startResult processKey,
            (case startResult processKey of Inl e \<Rightarrow> w | Inr i \<Rightarrow> w @ [InstanceID i])))\<rparr>"

definition exampleTime :: time where
  "exampleTime = \<lparr>Year = 2025, Month = 1, Day = 2, Hour = 3, Minute = 4, Second = 5,
                  ZoneOffset = 0, UnixSeconds = 1735787045\<rparr>"

definition exampleChild :: process_instance where
  "exampleChild =
     \<lparr>InstanceID = ''child-1'', ProcessID = ''child'', ProcessName = ''Child'',
      InstanceState = ''COMPLETED'', CurrentActivity = ''end'',
      StartedAt = exampleTime, InstanceUpdatedAt = exampleTime,
      CompletedAt = Some exampleTime,
      InstanceVariables = [''result'' \<mapsto> VNum 42]\<rparr>"

text \<open>A token at the call activity \<^verbatim>\<open>Call_1\<close> with the given state, key and context.\<close>

definition exampleToken :: "TokenState \<Rightarrow> string \<Rightarrow> variables \<Rightarrow> token" where
  "exampleToken state waitingFor context =
     \<lparr>TokenID = ''t1'', ProcessInstanceID = ''i1'', ProcessKey = ''parent'',
      CurrentElementID = ''Call_1'', State = state, WaitingFor = waitingFor,
      Variables = [''x'' \<mapsto> VNum 1], ExecutionContext = context,
      BoundaryTimerIDs = [], UpdatedAt = 0\<rparr>"

text \<open>A call activity element that calls the process \<^verbatim>\<open>child\<close> and has one outgoing flow.\<close>

definition exampleCallActivity :: element where
  "exampleCallActivity =
     [(''type'', VStr ''callActivity''),
      (''outgoing'', VList [VStr ''Flow_2'']),
      (''extension_elements'',
         VList [VMap [(''type'', VStr ''extensionElements''),
                      (''extensions'',
                         VList [VMap [(''type'', VStr ''calledElement''),
                                      (''called_element'',
                                         VMap [(''process_id'', VStr ''child'')])]])]])]"

definition exampleStorage :: "token \<Rightarrow> (unit, unit, unit, unit) storage" where
  "exampleStorage t =
     \<lparr>tokens = [TokenID t \<mapsto> t], instances = Map.empty, timers = Map.empty,
      subscriptions = Map.empty, jobs = Map.empty\<rparr>"

definition exampleProcess :: BPMNProcess where
  "exampleProcess =
     \<lparr>Elements =
        [(''Start_1'', VMap [(''type'', VStr ''startEvent''), (''outgoing'', VList [VStr ''Flow_1''])]),
         (''Call_1'', VMap [(''type'', VStr ''callActivity''),
                           (''incoming'', VList [VStr ''Flow_1'']),
                           (''outgoing'', VList [VStr ''Flow_2''])]),
         (''End_1'', VMap [(''type'', VStr ''endEvent''), (''incoming'', VStr ''Flow_2'')])]\<rparr>"

text \<open>A process whose only element has the empty string as its id.\<close>

definition emptyIdProcess :: BPMNProcess where
  "emptyIdProcess =
     \<lparr>Elements = [('''', VMap [(''incoming'', VList [VStr ''Flow_1''])])]\<rparr>"

text \<open>
  Two tokens of instance \<^verbatim>\<open>i1\<close>: \<^verbatim>\<open>tA\<close> is parked at the join \<^verbatim>\<open>Join_1\<close>, \<^verbatim>\<open>tB\<close> is still at
  \<^verbatim>\<open>Task_B\<close> and wrote the variable \<^verbatim>\<open>k\<close> later than \<^verbatim>\<open>tA\<close>.
\<close>

definition exampleJoinStore :: "token list" where
  "exampleJoinStore =
     [\<lparr>TokenID = ''tA'', ProcessInstanceID = ''i1'', ProcessKey = ''p'',
       CurrentElementID = ''Join_1'', State = WAITING, WaitingFor = '''',
       Variables = [''k'' \<mapsto> VStr ''A''], ExecutionContext = Map.empty,
       BoundaryTimerIDs = [], UpdatedAt = 1\<rparr>,
      \<lparr>TokenID = ''tB'', ProcessInstanceID = ''i1'', ProcessKey = ''p'',
       CurrentElementID = ''Task_B'', State = ACTIVE, WaitingFor = '''',
       Variables = [''k'' \<mapsto> VStr ''B''], ExecutionContext = Map.empty,
       BoundaryTimerIDs = [], UpdatedAt = 2\<rparr>]"

section \<open>Substring search and the routing of jobs responses\<close>

declare findInString_loop.simps [simp del]

lemma occurs_at_iff:
  "occurs_at s substr i \<longleftrightarrow>
     0 \<le> i \<and> i + int (length substr) \<le> int (length s) \<and>
     take (length substr) (drop (nat i) s) = substr"
  by (auto simp: occurs_at_def slice_def)

lemma occurs_at_nonneg: "occurs_at s substr j \<Longrightarrow> 0 \<le> j"
  by (simp add: occurs_at_iff)

lemma has_substring_iff: "has_substring s substr \<longleftrightarrow> (\<exists>i. occurs_at s substr i)"
proof
  assume "has_substring s substr"
  then obtain pre post where s: "s = pre @ substr @ post"
    unfolding has_substring_def by blast
  have "occurs_at s substr (int (length pre))"
    by (simp add: occurs_at_iff s)
  then show "\<exists>i. occurs_at s substr i" ..
next
  assume "\<exists>i. occurs_at s substr i"
  then obtain i where i: "occurs_at s substr i" ..
  then have t: "take (length substr) (drop (nat i) s) = substr"
    by (simp add: occurs_at_iff)
  have "s = take (nat i) s @ drop (nat i) s" by simp
  also have "drop (nat i) s =
      take (length substr) (drop (nat i) s) @ drop (length substr) (drop (nat i) s)"
    by (rule append_take_drop_id [symmetric])
  finally have "s = take (nat i) s @ substr @ drop (length substr) (drop (nat i) s)"
    using t by simp
  then show "has_substring s substr"
    unfolding has_substring_def by blast
qed

text \<open>
  The loop invariant: no occurrence starts before \<open>i\<close>. The loop then returns the least
  occurrence, or \<open>-1\<close> when there is none, and its slice is always in range.
\<close>

lemma findInString_loop_spec:
  assumes "0 \<le> i" and "\<forall>j. 0 \<le> j \<and> j < i \<longrightarrow> \<not> occurs_at s substr j"
  shows "(\<exists>k. findInString_loop s substr i = Inr k \<and> occurs_at s substr k \<and>
              (\<forall>j. occurs_at s substr j \<longrightarrow> k \<le> j))
         \<or> (findInString_loop s substr i = Inr (- 1) \<and> (\<forall>j. \<not> occurs_at s substr j))"
  using assms
proof (induction s substr i rule: findInString_loop.induct)
  case (1 s substr i)
  show ?case
  proof (cases "i \<le> int (length s) - int (length substr)")
    case False
    have "\<not> occurs_at s substr j" for j
    proof
      assume o: "occurs_at s substr j"
      then have "0 \<le> j" "j + int (length substr) \<le> int (length s)"
        by (simp_all add: occurs_at_iff)
      with False have "j < i" by linarith
      with \<open>0 \<le> j\<close> o "1.prems"(2) show False by blast
    qed
    moreover from False have "findInString_loop s substr i = Inr (- 1)"
      by (subst findInString_loop.simps) simp
    ultimately show ?thesis by blast
  next
    case True
    with "1.prems"(1) have sl: "slice s i (i + int (length substr)) =
        Inr (take (length substr) (drop (nat i) s))"
      by (simp add: slice_def)
    show ?thesis
    proof (cases "take (length substr) (drop (nat i) s) = substr")
      case eq: True
      have o: "occurs_at s substr i"
        using True "1.prems"(1) eq by (simp add: occurs_at_iff)
      have least: "i \<le> j" if "occurs_at s substr j" for j
      proof (rule ccontr)
        assume "\<not> i \<le> j"
        moreover from that have "0 \<le> j" by (simp add: occurs_at_iff)
        ultimately show False using that "1.prems"(2) by auto
      qed
      have "findInString_loop s substr i = Inr i"
        using True sl eq by (subst findInString_loop.simps) simp
      with o least show ?thesis by blast
    next
      case ne: False
      have no: "\<not> occurs_at s substr i"
        using ne by (simp add: occurs_at_iff)
      have p2: "\<forall>j. 0 \<le> j \<and> j < i + 1 \<longrightarrow> \<not> occurs_at s substr j"
      proof (intro allI impI)
        fix j assume j: "0 \<le> j \<and> j < i + 1"
        then have "j < i \<or> j = i" by linarith
        then show "\<not> occurs_at s substr j"
          using no "1.prems"(2) j by blast
      qed
      have step: "findInString_loop s substr i = findInString_loop s substr (i + 1)"
        using True sl ne by (subst findInString_loop.simps) simp
      have "0 \<le> i + 1" using "1.prems"(1) by simp
      from "1.IH"[OF True sl ne this p2] step show ?thesis by simp
    qed
  qed
qed

lemma findInString_spec:
  "(\<exists>k. findInString s substr = Inr k \<and> occurs_at s substr k \<and>
        (\<forall>j. occurs_at s substr j \<longrightarrow> k \<le> j))
   \<or> (findInString s substr = Inr (- 1) \<and> (\<forall>j. \<not> occurs_at s substr j))"
proof (cases "length substr = 0")
  case True
  then have "findInString s substr = Inr 0" by (simp add: findInString_def)
  moreover have "occurs_at s substr 0" using True by (simp add: occurs_at_iff)
  moreover have "\<forall>j. occurs_at s substr j \<longrightarrow> 0 \<le> j" by (simp add: occurs_at_iff)
  ultimately show ?thesis by blast
next
  case False
  show ?thesis
  proof (cases "length s < length substr")
    case True
    then have "findInString s substr = Inr (- 1)"
      using False by (simp add: findInString_def)
    moreover have "\<forall>j. \<not> occurs_at s substr j"
      using True by (auto simp: occurs_at_iff)
    ultimately show ?thesis by blast
  next
    case ge: False
    have "findInString s substr = findInString_loop s substr 0"
      using False ge by (simp add: findInString_def)
    moreover have "\<forall>j. 0 \<le> j \<and> j < (0::int) \<longrightarrow> \<not> occurs_at s substr j" by auto
    ultimately show ?thesis
      using findInString_loop_spec[of 0 s substr] by simp
  qed
qed

lemma findInString_found_iff:
  "\<exists>r. findInString s substr = Inr r \<and> (r \<noteq> - 1 \<longleftrightarrow> (\<exists>i. occurs_at s substr i))"
  using findInString_spec[of s substr] occurs_at_nonneg by fastforce

lemma contains_has_substring: "contains s substr = Inr (has_substring s substr)"
proof -
  obtain r where r: "findInString s substr = Inr r"
    and iff: "r \<noteq> - 1 \<longleftrightarrow> (\<exists>i. occurs_at s substr i)"
    using findInString_found_iff by blast
  show ?thesis
  proof (cases "length substr \<le> length s")
    case True
    then show ?thesis
      by (simp add: contains_def andAlso_def r iff has_substring_iff)
  next
    case False
    then have "\<not> has_substring s substr"
      by (auto simp: has_substring_def)
    with False show ?thesis by (simp add: contains_def andAlso_def)
  qed
qed

text \<open>
  C10. For all strings \<open>s\<close> and \<open>substr\<close>, \<^verbatim>\<open>findInString(s, substr)\<close> returns the smallest
  index \<open>i\<close> with \<^verbatim>\<open>s[i:i+len(substr)]\<close> equal to \<open>substr\<close>, and \<open>-1\<close> when there is no such
  index; \<^verbatim>\<open>findInString(s, "")\<close> is \<open>0\<close>; and \<^verbatim>\<open>contains(s, substr)\<close> is true exactly when
  such an index exists. Neither function panics.
\<close>

theorem C10_findInString_least_index:
  "((\<exists>i. occurs_at s substr i) \<longrightarrow>
      (\<exists>k. findInString s substr = Inr k \<and> occurs_at s substr k \<and>
           (\<forall>j. occurs_at s substr j \<longrightarrow> k \<le> j)))
   \<and> ((\<forall>i. \<not> occurs_at s substr i) \<longrightarrow> findInString s substr = Inr (- 1))
   \<and> findInString s '''' = Inr 0
   \<and> contains s substr = Inr (\<exists>i. occurs_at s substr i)"
proof (intro conjI impI)
  assume "\<exists>i. occurs_at s substr i"
  then show "\<exists>k. findInString s substr = Inr k \<and> occurs_at s substr k \<and>
      (\<forall>j. occurs_at s substr j \<longrightarrow> k \<le> j)"
    using findInString_spec[of s substr] by blast
next
  assume "\<forall>i. \<not> occurs_at s substr i"
  then show "findInString s substr = Inr (- 1)"
    using findInString_spec[of s substr] by blast
next
  show "findInString s '''' = Inr 0" by (simp add: findInString_def)
next
  show "contains s substr = Inr (\<exists>i. occurs_at s substr i)"
    by (simp add: contains_has_substring has_substring_iff)
qed

theorem C10_findInString_witness:
  "occurs_at ''abcabc'' ''bc'' 1 \<and> findInString ''abcabc'' ''bc'' = Inr 1
   \<and> contains ''abcabc'' ''bc'' = Inr True
   \<and> (\<forall>i. \<not> occurs_at ''ab'' ''c'' i) \<and> findInString ''ab'' ''c'' = Inr (- 1)
   \<and> contains ''ab'' ''c'' = Inr False"
proof -
  have o1: "occurs_at ''abcabc'' ''bc'' 1"
    by (simp add: occurs_at_iff)
  have o0: "\<not> occurs_at ''abcabc'' ''bc'' 0"
    by (simp add: occurs_at_iff)
  have ex: "\<exists>i. occurs_at ''abcabc'' ''bc'' i" using o1 ..
  from C10_findInString_least_index[of "''abcabc''" "''bc''"] ex
  obtain k where k: "findInString ''abcabc'' ''bc'' = Inr k" "occurs_at ''abcabc'' ''bc'' k"
      "\<forall>j. occurs_at ''abcabc'' ''bc'' j \<longrightarrow> k \<le> j"
    by blast
  from k(3) o1 have "k \<le> 1" by blast
  moreover from k(2) have "0 \<le> k" by (rule occurs_at_nonneg)
  moreover from k(2) o0 have "k \<noteq> 0" by auto
  ultimately have "k = 1" by linarith
  have c1: "contains ''abcabc'' ''bc'' = Inr True"
    using C10_findInString_least_index[of "''abcabc''" "''bc''"] ex by simp
  have none: "\<forall>i. \<not> occurs_at ''ab'' ''c'' i"
  proof (intro allI notI)
    fix i assume o: "occurs_at ''ab'' ''c'' i"
    then have "0 \<le> i" "i \<le> 1" by (simp_all add: occurs_at_iff)
    then have "i = 0 \<or> i = 1" by linarith
    with o show False by (auto simp: occurs_at_iff)
  qed
  have f2: "findInString ''ab'' ''c'' = Inr (- 1)"
    using C10_findInString_least_index[of "''ab''" "''c''"] none by blast
  have c2: "contains ''ab'' ''c'' = Inr False"
    using C10_findInString_least_index[of "''ab''" "''c''"] none by simp
  from o1 k(1) \<open>k = 1\<close> c1 none f2 c2 show ?thesis by simp
qed

text \<open>
  C9. For every response string, \<^verbatim>\<open>Core.isJobCallback\<close> returns true if and only if the
  string is non-empty, does not contain the substring \<^verbatim>\<open>_response\<close>, and contains the
  substring \<^verbatim>\<open>job_completed\<close> or the substring \<^verbatim>\<open>job_failed\<close>; consequently a response
  that contains \<^verbatim>\<open>_response\<close> anywhere is ignored by \<^verbatim>\<open>processJobsResponses\<close> as an API
  response and not handed to \<^verbatim>\<open>handleJobsResponse\<close>, which would forward it to the
  process component.
\<close>

theorem C9_isJobCallback_iff:
  "isJobCallback response =
     Inr (response \<noteq> [] \<and> \<not> has_substring response ''_response'' \<and>
          (has_substring response ''job_completed'' \<or> has_substring response ''job_failed''))
   \<and> (has_substring response ''_response'' \<longrightarrow>
        processJobsResponses_round response = Inr (IgnoreAPIResponse (take 100 response)))"
proof
  show cb: "isJobCallback response =
     Inr (response \<noteq> [] \<and> \<not> has_substring response ''_response'' \<and>
          (has_substring response ''job_completed'' \<or> has_substring response ''job_failed''))"
    by (simp add: isJobCallback_def contains_has_substring andAlso_def orElse_def notB_def)
  show "has_substring response ''_response'' \<longrightarrow>
        processJobsResponses_round response = Inr (IgnoreAPIResponse (take 100 response))"
  proof
    assume "has_substring response ''_response''"
    then have "isJobCallback response = Inr False" by (simp add: cb)
    moreover have "slice response 0 (min_go (int (length response)) 100) =
        Inr (take 100 response)"
      by (simp add: slice_def min_go_def)
    ultimately show "processJobsResponses_round response =
        Inr (IgnoreAPIResponse (take 100 response))"
      by (simp add: processJobsResponses_round_def)
  qed
qed

theorem C9_isJobCallback_witness:
  "has_substring ''{job_completed_response}'' ''_response''
   \<and> isJobCallback ''{job_completed_response}'' = Inr False
   \<and> processJobsResponses_round ''{job_completed_response}'' =
       Inr (IgnoreAPIResponse ''{job_completed_response}'')"
proof -
  have "''{job_completed_response}'' = ''{job_completed'' @ ''_response'' @ ''}''" by simp
  then have h: "has_substring ''{job_completed_response}'' ''_response''"
    unfolding has_substring_def by blast
  from C9_isJobCallback_iff[of "''{job_completed_response}''"] h show ?thesis by simp
qed

section \<open>Request ids\<close>

declare fillFromCharset.simps [simp del]

text \<open>
  The loop invariant of the filling loop: the bytes before \<open>i\<close> are kept, the bytes from
  \<open>i\<close> on are taken from the character set by their index.
\<close>

lemma fillFromCharset_spec:
  "i \<le> length result \<Longrightarrow>
   fillFromCharset i result =
     take i result @ map (\<lambda>j. charset ! (j mod length charset)) [i..<length result]"
proof (induction i result rule: fillFromCharset.induct)
  case (1 i result)
  show ?case
  proof (cases "i < length result")
    case False
    with "1.prems" have "i = length result" by simp
    then show ?thesis by (subst fillFromCharset.simps) simp
  next
    case True
    let ?c = "charset ! (i mod length charset)"
    have le: "i + 1 \<le> length (result[i := ?c])" using True by simp
    have "fillFromCharset i result = fillFromCharset (i + 1) (result[i := ?c])"
      using True by (subst fillFromCharset.simps) simp
    also have "\<dots> = take (i + 1) (result[i := ?c])
        @ map (\<lambda>j. charset ! (j mod length charset)) [i + 1..<length (result[i := ?c])]"
      by (rule "1.IH"[OF True le])
    also have "take (i + 1) (result[i := ?c]) = take i result @ [?c]"
      using True by (simp add: take_Suc_conv_app_nth)
    also have "length (result[i := ?c]) = length result" by simp
    finally show ?thesis
      using True by (simp add: upt_conv_Cons)
  qed
qed

lemma length_charset: "length charset = 36"
  by (simp add: charset_def)

lemma generateRandomString_closed_form:
  "0 \<le> len \<Longrightarrow>
   fillFromCharset 0 (replicate (nat len) (CHR 0x00)) =
     map (\<lambda>i. charset ! (i mod 36)) [0..<nat len]"
  by (simp add: fillFromCharset_spec length_charset)

lemma cycled_8: "map (\<lambda>i. charset ! (i mod 36)) [0..<nat 8] = ''abcdefgh''"
  by (simp add: charset_def upt_rec)

text \<open>
  C8. \<^verbatim>\<open>ProcessHandler.generateRandomString\<close> and \<^verbatim>\<open>ParserHandler.generateRandomString\<close>
  are deterministic: for every length \<open>n\<close> the result is a function of \<open>n\<close> alone, the same
  for both handlers, namely the first \<open>n\<close> characters of the character set
  \<^verbatim>\<open>abcdefghijklmnopqrstuvwxyz0123456789\<close> cycled (\<^verbatim>\<open>charset[i mod 36]\<close> at position \<open>i\<close>);
  so the request id generated when no \<^verbatim>\<open>X-Request-ID\<close> header is present is the fixed
  string \<^verbatim>\<open>process_abcdefgh\<close> (\<^verbatim>\<open>parser_abcdefgh\<close> in the parser handler). A negative
  length returns no string: \<^verbatim>\<open>make\<close> panics, in both handlers alike.
\<close>

theorem C8_generateRandomString_deterministic:
  "ProcessHandler_generateRandomString n = ParserHandler_generateRandomString n
   \<and> (0 \<le> n \<longrightarrow>
        ProcessHandler_generateRandomString n =
          Inr (map (\<lambda>i. charset ! (i mod 36)) [0..<nat n]))
   \<and> (n < 0 \<longrightarrow> ProcessHandler_generateRandomString n = Inl MakeSliceLenOutOfRange)
   \<and> ProcessHandler_getRequestID '''' = Inr ''process_abcdefgh''
   \<and> ParserHandler_getRequestID '''' = Inr ''parser_abcdefgh''"
proof (intro conjI impI)
  show "ProcessHandler_generateRandomString n = ParserHandler_generateRandomString n"
    by (simp add: ProcessHandler_generateRandomString_def
        ParserHandler_generateRandomString_def)
next
  assume "0 \<le> n"
  then show "ProcessHandler_generateRandomString n =
      Inr (map (\<lambda>i. charset ! (i mod 36)) [0..<nat n])"
    by (simp add: ProcessHandler_generateRandomString_def generateRandomString_closed_form)
next
  assume "n < 0"
  then show "ProcessHandler_generateRandomString n = Inl MakeSliceLenOutOfRange"
    by (simp add: ProcessHandler_generateRandomString_def)
next
  have "ProcessHandler_generateRandomString 8 = Inr ''abcdefgh''"
    using generateRandomString_closed_form[of 8] cycled_8
    by (simp add: ProcessHandler_generateRandomString_def)
  then show "ProcessHandler_getRequestID '''' = Inr ''process_abcdefgh''"
    by (simp add: ProcessHandler_getRequestID_def)
next
  have "ParserHandler_generateRandomString 8 = Inr ''abcdefgh''"
    using generateRandomString_closed_form[of 8] cycled_8
    by (simp add: ParserHandler_generateRandomString_def)
  then show "ParserHandler_getRequestID '''' = Inr ''parser_abcdefgh''"
    by (simp add: ParserHandler_getRequestID_def)
qed

theorem C8_generateRandomString_witness:
  "(0::int) \<le> 8 \<and> ProcessHandler_generateRandomString 8 = Inr ''abcdefgh''
   \<and> ParserHandler_generateRandomString 8 = Inr ''abcdefgh''"
proof -
  have eq: "ProcessHandler_generateRandomString 8 = ParserHandler_generateRandomString 8"
    using C8_generateRandomString_deterministic[of 8] by blast
  have nonneg: "(0::int) \<le> 8" by simp
  have "ProcessHandler_generateRandomString 8 =
      Inr (map (\<lambda>i. charset ! (i mod 36)) [0..<nat 8])"
    using C8_generateRandomString_deterministic[of 8] nonneg by blast
  then have p: "ProcessHandler_generateRandomString 8 = Inr ''abcdefgh''"
    by (simp only: cycled_8)
  have q: "ParserHandler_generateRandomString 8 = Inr ''abcdefgh''"
    by (simp only: eq [symmetric] p)
  from p q show ?thesis by simp
qed

section \<open>Process component adapter\<close>

declare decimal.simps [simp del]

lemma formatRFC3339_not_empty: "formatRFC3339 t \<noteq> ''''"
  by (simp add: formatRFC3339_def)

text \<open>
  The zone's sign comes from the offset truncated to minutes: half a minute west of UTC
  is written \<^verbatim>\<open>+00:00\<close>, five and a half hours west \<^verbatim>\<open>-05:30\<close>; a negative year keeps its
  sign before the padded digits.
\<close>

lemma formatZone_examples:
  "formatZone 0 = ''Z''"
  "formatZone (- 30) = ''+00:00''"
  "formatZone (- 59) = ''+00:00''"
  "formatZone (- 60) = ''-00:01''"
  "formatZone 30 = ''+00:00''"
  "formatZone (- 19800) = ''-05:30''"
  "formatZone 7200 = ''+02:00''"
  by (simp_all add: formatZone_def formatZoneMinutes_def truncDiv_def truncMod_def
      appendInt_def zeroPad_def decimal.simps digitChar_def)

lemma appendInt_examples:
  "appendInt 2025 4 = ''2025''"
  "appendInt 7 2 = ''07''"
  "appendInt 0 2 = ''00''"
  "appendInt (- 44) 4 = ''-0044''"
  by (simp_all add: appendInt_def zeroPad_def decimal.simps digitChar_def numeral_2_eq_2)

text \<open>
  C7. For every instance id, when the underlying process component returns an instance,
  the \<^verbatim>\<open>GetProcessInstanceStatus\<close> adapter returns a status whose \<^verbatim>\<open>State\<close> and \<^verbatim>\<open>Status\<close>
  fields both equal the instance's state string, whose \<^verbatim>\<open>CompletedAt\<close> is the empty string
  exactly when the instance's \<^verbatim>\<open>CompletedAt\<close> is nil (and its RFC3339 formatting
  otherwise), and whose \<^verbatim>\<open>CreatedAt\<close> equals the formatted \<^verbatim>\<open>StartedAt\<close>; when the component
  returns an error, the adapter returns that error and no status.
\<close>

theorem C7_GetProcessInstanceStatus_adapter:
  "(processComp instanceID = Inr inst \<longrightarrow>
      (\<exists>st. GetProcessInstanceStatus processComp instanceID = Inr st
         \<and> StatusState st = InstanceState inst
         \<and> Status st = InstanceState inst
         \<and> (StatusCompletedAt st = '''' \<longleftrightarrow> CompletedAt inst = None)
         \<and> (\<forall>t. CompletedAt inst = Some t \<longrightarrow> StatusCompletedAt st = formatRFC3339 t)
         \<and> StatusCreatedAt st = formatRFC3339 (StartedAt inst)))
   \<and> (processComp instanceID = Inl err \<longrightarrow>
        GetProcessInstanceStatus processComp instanceID = Inl err)"
proof (intro conjI impI)
  assume "processComp instanceID = Inr inst"
  then show "\<exists>st. GetProcessInstanceStatus processComp instanceID = Inr st
         \<and> StatusState st = InstanceState inst
         \<and> Status st = InstanceState inst
         \<and> (StatusCompletedAt st = '''' \<longleftrightarrow> CompletedAt inst = None)
         \<and> (\<forall>t. CompletedAt inst = Some t \<longrightarrow> StatusCompletedAt st = formatRFC3339 t)
         \<and> StatusCreatedAt st = formatRFC3339 (StartedAt inst)"
    by (cases "CompletedAt inst")
       (simp_all add: GetProcessInstanceStatus_def formatRFC3339_not_empty)
next
  assume "processComp instanceID = Inl err"
  then show "GetProcessInstanceStatus processComp instanceID = Inl err"
    by (simp add: GetProcessInstanceStatus_def)
qed

theorem C7_GetProcessInstanceStatus_witness:
  "(\<exists>st. GetProcessInstanceStatus
           (\<lambda>i. Inr \<lparr>InstanceID = i, ProcessID = ''p'', ProcessName = ''P'',
                     InstanceState = ''COMPLETED'', CurrentActivity = ''end'',
                     StartedAt = \<lparr>Year = 2025, Month = 1, Day = 2, Hour = 3, Minute = 4,
                                  Second = 5, ZoneOffset = - 30, UnixSeconds = 1735787075\<rparr>,
                     InstanceUpdatedAt = \<lparr>Year = 2025, Month = 1, Day = 2, Hour = 3,
                                  Minute = 4, Second = 6, ZoneOffset = 0,
                                  UnixSeconds = 1735787046\<rparr>,
                     CompletedAt = Some \<lparr>Year = 2025, Month = 1, Day = 2, Hour = 3,
                                  Minute = 4, Second = 6, ZoneOffset = - 19800,
                                  UnixSeconds = 1735806846\<rparr>,
                     InstanceVariables = Map.empty\<rparr>) ''i1'' = Inr st
      \<and> StatusState st = ''COMPLETED'' \<and> Status st = ''COMPLETED''
      \<and> StatusCompletedAt st = ''2025-01-02T03:04:06-05:30''
      \<and> StatusCreatedAt st = ''2025-01-02T03:04:05+00:00'')
   \<and> GetProcessInstanceStatus (\<lambda>i. Inl ''instance not found'') ''i1''
       = Inl ''instance not found''"
proof -
  let ?started = "\<lparr>Year = 2025, Month = 1, Day = 2, Hour = 3, Minute = 4,
                    Second = 5, ZoneOffset = - 30, UnixSeconds = 1735787075\<rparr>"
  let ?completed = "\<lparr>Year = 2025, Month = 1, Day = 2, Hour = 3,
                      Minute = 4, Second = 6, ZoneOffset = - 19800, UnixSeconds = 1735806846\<rparr>"
  have f1: "formatRFC3339 ?started = ''2025-01-02T03:04:05+00:00''"
    by (simp add: formatRFC3339_def formatZone_examples appendInt_def zeroPad_def
        decimal.simps digitChar_def)
  have f2: "formatRFC3339 ?completed = ''2025-01-02T03:04:06-05:30''"
    by (simp add: formatRFC3339_def formatZone_examples appendInt_def zeroPad_def
        decimal.simps digitChar_def)
  have e: "GetProcessInstanceStatus (\<lambda>i. Inl ''instance not found'') ''i1''
       = Inl ''instance not found''"
    using C7_GetProcessInstanceStatus_adapter
      [of "\<lambda>i. Inl ''instance not found''" "''i1''" _ "''instance not found''"]
    by simp
  show ?thesis
    using C7_GetProcessInstanceStatus_adapter
      [of "\<lambda>i. Inr \<lparr>InstanceID = i, ProcessID = ''p'', ProcessName = ''P'',
                     InstanceState = ''COMPLETED'', CurrentActivity = ''end'',
                     StartedAt = ?started,
                     InstanceUpdatedAt = \<lparr>Year = 2025, Month = 1, Day = 2, Hour = 3,
                                  Minute = 4, Second = 6, ZoneOffset = 0,
                                  UnixSeconds = 1735787046\<rparr>,
                     CompletedAt = Some ?completed,
                     InstanceVariables = Map.empty\<rparr>" "''i1''"
          "\<lparr>InstanceID = ''i1'', ProcessID = ''p'', ProcessName = ''P'',
                     InstanceState = ''COMPLETED'', CurrentActivity = ''end'',
                     StartedAt = ?started,
                     InstanceUpdatedAt = \<lparr>Year = 2025, Month = 1, Day = 2, Hour = 3,
                                  Minute = 4, Second = 6, ZoneOffset = 0,
                                  UnixSeconds = 1735787046\<rparr>,
                     CompletedAt = Some ?completed,
                     InstanceVariables = Map.empty\<rparr>"]
      e f1 f2
    by auto
qed

section \<open>Resolving a flow id to its target element\<close>

lemma incomingListHasFlow_iff: "incomingListHasFlow items f \<longleftrightarrow> VStr f \<in> set items"
  by (induction items) (auto split: goValue.splits)

text \<open>One round of the outer loop returns the element's id exactly when it lists the flow.\<close>

lemma findTargetElementLoop_Cons:
  "findTargetElementLoop ((elementID, element) # rest) f =
     (if lists_incoming f element then elementID else findTargetElementLoop rest f)"
proof (cases element)
  case (VMap elementMap)
  show ?thesis
  proof (cases "map_of elementMap ''incoming''")
    case None
    with VMap show ?thesis by (simp add: lists_incoming_def)
  next
    case (Some incoming)
    with VMap show ?thesis
      by (cases incoming) (simp_all add: lists_incoming_def incomingListHasFlow_iff)
  qed
qed (simp_all add: lists_incoming_def)

lemma findTargetElementLoop_none:
  "\<forall>(elementID, element) \<in> set es. \<not> lists_incoming f element \<Longrightarrow>
   findTargetElementLoop es f = ''''"
proof (induction es)
  case Nil
  show ?case by simp
next
  case (Cons e es)
  obtain elementID element where e: "e = (elementID, element)" by (cases e)
  from Cons.prems e have "\<not> lists_incoming f element" by simp
  moreover from Cons have "findTargetElementLoop es f = ''''" by simp
  ultimately show ?case
    unfolding e by (simp only: findTargetElementLoop_Cons if_False)
qed

lemma findTargetElementLoop_some:
  "\<exists>(elementID, element) \<in> set es. lists_incoming f element \<Longrightarrow>
   \<exists>element. (findTargetElementLoop es f, element) \<in> set es \<and> lists_incoming f element"
proof (induction es)
  case Nil
  then show ?case by simp
next
  case (Cons e es)
  obtain elementID element where e: "e = (elementID, element)" by (cases e)
  show ?case
  proof (cases "lists_incoming f element")
    case True
    then have "findTargetElementLoop (e # es) f = elementID"
      unfolding e by (simp only: findTargetElementLoop_Cons if_True)
    with True e show ?thesis by auto
  next
    case False
    then have r: "findTargetElementLoop (e # es) f = findTargetElementLoop es f"
      unfolding e by (simp only: findTargetElementLoop_Cons if_False)
    from Cons.prems False e have "\<exists>(elementID, element) \<in> set es. lists_incoming f element"
      by auto
    from Cons.IH[OF this] r show ?thesis by auto
  qed
qed

text \<open>
  C6, as stated, fails where an element that lists the flow has the empty string as its
  id: the function returns that id, the empty string, although an element lists the flow.
\<close>

theorem C6_findTargetElementByFlowID_counterexample:
  "lists_incoming ''Flow_1'' (VMap [(''incoming'', VList [VStr ''Flow_1''])])
   \<and> ('''', VMap [(''incoming'', VList [VStr ''Flow_1''])]) \<in> set (Elements emptyIdProcess)
   \<and> findTargetElementByFlowID ''Flow_1'' emptyIdProcess = ''''"
  by (simp add: lists_incoming_def emptyIdProcess_def findTargetElementByFlowID_def)

text \<open>
  C6, amended. For every flow id \<open>f\<close> and every process definition: when some element
  lists \<open>f\<close> among its incoming flows (its \<^verbatim>\<open>incoming\<close> attribute is a list containing the
  string \<open>f\<close>, or is the string \<open>f\<close>), \<^verbatim>\<open>findTargetElementByFlowID\<close> returns the id of such
  an element; when no element lists \<open>f\<close>, it returns the empty string; and when no element
  listing \<open>f\<close> has the empty string as its id, it returns the empty string exactly when no
  element lists \<open>f\<close>.
\<close>

theorem C6_findTargetElementByFlowID_resolves:
  "((\<exists>(elementID, element) \<in> set (Elements p). lists_incoming f element) \<longrightarrow>
      (\<exists>element. (findTargetElementByFlowID f p, element) \<in> set (Elements p)
                 \<and> lists_incoming f element))
   \<and> ((\<forall>(elementID, element) \<in> set (Elements p). \<not> lists_incoming f element) \<longrightarrow>
        findTargetElementByFlowID f p = '''')
   \<and> ((\<forall>(elementID, element) \<in> set (Elements p).
          lists_incoming f element \<longrightarrow> elementID \<noteq> '''') \<longrightarrow>
        (findTargetElementByFlowID f p = '''' \<longleftrightarrow>
           (\<forall>(elementID, element) \<in> set (Elements p). \<not> lists_incoming f element)))"
proof (intro conjI impI)
  assume "\<exists>(elementID, element) \<in> set (Elements p). lists_incoming f element"
  then show "\<exists>element. (findTargetElementByFlowID f p, element) \<in> set (Elements p)
      \<and> lists_incoming f element"
    unfolding findTargetElementByFlowID_def by (rule findTargetElementLoop_some)
next
  assume "\<forall>(elementID, element) \<in> set (Elements p). \<not> lists_incoming f element"
  then show "findTargetElementByFlowID f p = ''''"
    unfolding findTargetElementByFlowID_def by (rule findTargetElementLoop_none)
next
  assume nonempty: "\<forall>(elementID, element) \<in> set (Elements p).
      lists_incoming f element \<longrightarrow> elementID \<noteq> ''''"
  show "findTargetElementByFlowID f p = '''' \<longleftrightarrow>
      (\<forall>(elementID, element) \<in> set (Elements p). \<not> lists_incoming f element)"
  proof
    assume empty: "findTargetElementByFlowID f p = ''''"
    show "\<forall>(elementID, element) \<in> set (Elements p). \<not> lists_incoming f element"
    proof (rule ccontr)
      assume "\<not> (\<forall>(elementID, element) \<in> set (Elements p). \<not> lists_incoming f element)"
      then have "\<exists>(elementID, element) \<in> set (Elements p). lists_incoming f element"
        by auto
      then obtain element where
        "(findTargetElementLoop (Elements p) f, element) \<in> set (Elements p)"
        "lists_incoming f element"
        using findTargetElementLoop_some by blast
      with nonempty have "findTargetElementLoop (Elements p) f \<noteq> ''''" by blast
      with empty show False by (simp add: findTargetElementByFlowID_def)
    qed
  next
    assume "\<forall>(elementID, element) \<in> set (Elements p). \<not> lists_incoming f element"
    then show "findTargetElementByFlowID f p = ''''"
      unfolding findTargetElementByFlowID_def by (rule findTargetElementLoop_none)
  qed
qed

theorem C6_findTargetElementByFlowID_witness:
  "(\<exists>(elementID, element) \<in> set (Elements exampleProcess). lists_incoming ''Flow_2'' element)
   \<and> (\<exists>element. (findTargetElementByFlowID ''Flow_2'' exampleProcess, element)
                   \<in> set (Elements exampleProcess)
                 \<and> lists_incoming ''Flow_2'' element)
   \<and> findTargetElementByFlowID ''Flow_2'' exampleProcess \<noteq> ''''
   \<and> \<not> (\<exists>(elementID, element) \<in> set (Elements exampleProcess).
            lists_incoming ''Flow_9'' element)
   \<and> findTargetElementByFlowID ''Flow_9'' exampleProcess = ''''"
proof -
  have ex: "\<exists>(elementID, element) \<in> set (Elements exampleProcess).
      lists_incoming ''Flow_2'' element"
    by (simp add: exampleProcess_def lists_incoming_def)
  have ne: "\<forall>(elementID, element) \<in> set (Elements exampleProcess).
      lists_incoming ''Flow_2'' element \<longrightarrow> elementID \<noteq> ''''"
    by (simp add: exampleProcess_def)
  have none: "\<forall>(elementID, element) \<in> set (Elements exampleProcess).
      \<not> lists_incoming ''Flow_9'' element"
    by (simp add: exampleProcess_def lists_incoming_def)
  note thm2 = C6_findTargetElementByFlowID_resolves[of exampleProcess "''Flow_2''"]
  note thm9 = C6_findTargetElementByFlowID_resolves[of exampleProcess "''Flow_9''"]
  have a: "\<exists>element. (findTargetElementByFlowID ''Flow_2'' exampleProcess, element)
                   \<in> set (Elements exampleProcess)
                 \<and> lists_incoming ''Flow_2'' element"
    using thm2 ex by blast
  have b: "findTargetElementByFlowID ''Flow_2'' exampleProcess \<noteq> ''''"
    using thm2 ex ne by blast
  have c: "findTargetElementByFlowID ''Flow_9'' exampleProcess = ''''"
    using thm9 none by blast
  from none have none2: "\<not> (\<exists>(elementID, element) \<in> set (Elements exampleProcess).
      lists_incoming ''Flow_9'' element)"
    by blast
  from ex a b none2 c show ?thesis by blast
qed

section \<open>Validating and resuming a callback\<close>

text \<open>
  C1. For every callback carrying a token id and an expected \<^verbatim>\<open>waitingFor\<close> key, if the
  stored token is not in WAITING state or its \<^verbatim>\<open>waitingFor\<close> field differs from the
  expected key, then \<^verbatim>\<open>CallbackHelper.LoadAndValidateToken\<close> returns an error and no token
  (the callback is dropped), and no stored token, instance, timer, subscription or job
  record is modified: the storage is unchanged.
\<close>

theorem C1_LoadAndValidateToken_drops_stale_callback:
  assumes "tokens st tokenID = Some t"
      and "State t \<noteq> WAITING \<or> WaitingFor t \<noteq> expectedWaitingFor"
  shows "(\<exists>err. fst (LoadAndValidateToken st tokenID expectedWaitingFor) = Inl err)
         \<and> snd (LoadAndValidateToken st tokenID expectedWaitingFor) = st"
  using assms by (auto simp: LoadAndValidateToken_def LoadToken_def IsWaiting_def)

theorem C1_LoadAndValidateToken_witness:
  "tokens (exampleStorage (exampleToken WAITING ''job:7'' Map.empty)) ''t1''
     = Some (exampleToken WAITING ''job:7'' Map.empty)
   \<and> WaitingFor (exampleToken WAITING ''job:7'' Map.empty) \<noteq> ''timer:42''
   \<and> (\<exists>err. fst (LoadAndValidateToken (exampleStorage (exampleToken WAITING ''job:7'' Map.empty))
                  ''t1'' ''timer:42'') = Inl err)
   \<and> snd (LoadAndValidateToken (exampleStorage (exampleToken WAITING ''job:7'' Map.empty))
            ''t1'' ''timer:42'')
       = exampleStorage (exampleToken WAITING ''job:7'' Map.empty)"
proof -
  have h1: "tokens (exampleStorage (exampleToken WAITING ''job:7'' Map.empty)) ''t1''
     = Some (exampleToken WAITING ''job:7'' Map.empty)"
    by (simp add: exampleStorage_def exampleToken_def)
  have h2: "WaitingFor (exampleToken WAITING ''job:7'' Map.empty) \<noteq> ''timer:42''"
    by (simp add: exampleToken_def)
  from h2 have h3: "State (exampleToken WAITING ''job:7'' Map.empty) \<noteq> WAITING
      \<or> WaitingFor (exampleToken WAITING ''job:7'' Map.empty) \<noteq> ''timer:42''" ..
  from C1_LoadAndValidateToken_drops_stale_callback[OF h1 h3] h1 h2 show ?thesis by blast
qed

text \<open>
  C2. For every token resumed by \<^verbatim>\<open>CallbackHelper.ProcessCallbackAndContinue\<close>,
  boundary-timer cancellation is attempted before the token update is persisted and the
  token is moved: the collaborator calls are the cancellation, then the update, then
  (when the update succeeded) the move. An error from \<^verbatim>\<open>CancelBoundaryTimersForToken\<close>
  does not make the callback fail: whatever the cancellation returns, the update is
  made, and when it succeeds the token is moved to the next elements and the callback
  fails only if the move fails.
\<close>

theorem C2_ProcessCallbackAndContinue_cancels_first_nonfatal:
  assumes "token2 = (case vars of None \<Rightarrow> ClearWaitingFor ch token0
                              | Some vs \<Rightarrow> MergeVariables ch (ClearWaitingFor ch token0) vs)"
      and "CancelBoundaryTimersForToken ch (TokenID token2) w0 = (cancelErr, w1)"
      and "UpdateToken ch token2 w1 = (updateErr, w2)"
      and "currentElementID =
             (if CurrentElementID token2 = '''' then elementID else CurrentElementID token2)"
      and "MoveTokenToNextElements ch token2 currentElementID w2 = (moveErr, token3, w3)"
      and "ProcessCallbackAndContinue ch token0 elementID vars w0 = (err, tokenOut, wOut, calls)"
  shows "take 2 calls =
           [CallCancelBoundaryTimersForToken (TokenID token2), CallUpdateToken token2]
         \<and> (updateErr = None \<longrightarrow>
              calls = [CallCancelBoundaryTimersForToken (TokenID token2),
                       CallUpdateToken token2,
                       CallMoveTokenToNextElements token2 currentElementID]
              \<and> (err = None \<longleftrightarrow> moveErr = None) \<and> tokenOut = token3 \<and> wOut = w3)
         \<and> (updateErr \<noteq> None \<longrightarrow> err \<noteq> None \<and> length calls = 2)"
proof (cases updateErr)
  case None
  with assms show ?thesis
    by (cases moveErr) (auto simp: ProcessCallbackAndContinue_def Let_def)
next
  case (Some e)
  with assms show ?thesis
    by (auto simp: ProcessCallbackAndContinue_def Let_def)
qed

theorem C2_ProcessCallbackAndContinue_witness:
  "ProcessCallbackAndContinue
     (exampleCollaborators (Some ''timer store unavailable'') (\<lambda>k. Inl ''unused''))
     (exampleToken WAITING ''job:7'' Map.empty) ''Call_1'' None []
   = (None, (exampleToken ACTIVE '''' Map.empty), [],
      [CallCancelBoundaryTimersForToken ''t1'',
       CallUpdateToken (exampleToken ACTIVE '''' Map.empty),
       CallMoveTokenToNextElements (exampleToken ACTIVE '''' Map.empty) ''Call_1''])"
proof -
  let ?ch = "exampleCollaborators (Some ''timer store unavailable'') (\<lambda>k. Inl ''unused'')"
  let ?t0 = "exampleToken WAITING ''job:7'' Map.empty"
  let ?t2 = "exampleToken ACTIVE '''' Map.empty"
  obtain err tokenOut wOut calls where
    r: "ProcessCallbackAndContinue ?ch ?t0 ''Call_1'' None [] = (err, tokenOut, wOut, calls)"
    by (metis prod_cases4)
  have a1: "?t2 = (case (None :: variables option) of None \<Rightarrow> ClearWaitingFor ?ch ?t0
                     | Some vs \<Rightarrow> MergeVariables ?ch (ClearWaitingFor ?ch ?t0) vs)"
    by (simp add: exampleCollaborators_def exampleToken_def)
  have a2: "CancelBoundaryTimersForToken ?ch (TokenID ?t2) []
      = (Some ''timer store unavailable'', [])"
    by (simp add: exampleCollaborators_def)
  have a3: "UpdateToken ?ch ?t2 [] = (None, [])"
    by (simp add: exampleCollaborators_def)
  have a4: "''Call_1'' = (if CurrentElementID ?t2 = '''' then ''Call_1''
                           else CurrentElementID ?t2)"
    by (simp add: exampleToken_def)
  have a5: "MoveTokenToNextElements ?ch ?t2 ''Call_1'' [] = (None, ?t2, [])"
    by (simp add: exampleCollaborators_def)
  from C2_ProcessCallbackAndContinue_cancels_first_nonfatal[OF a1 a2 a3 a4 a5 r]
  have "calls = [CallCancelBoundaryTimersForToken (TokenID ?t2), CallUpdateToken ?t2,
                 CallMoveTokenToNextElements ?t2 ''Call_1'']"
    and "err = None" and "tokenOut = ?t2" and "wOut = []"
    by simp_all
  moreover have "TokenID ?t2 = ''t1''" by (simp add: exampleToken_def)
  ultimately show ?thesis using r by simp
qed

section \<open>Call activity\<close>

lemma outgoingFlowIDs_set: "set (outgoingFlowIDs items) = {flowID. VStr flowID \<in> set items}"
  by (induction items) (auto split: goValue.splits)

lemma exampleCallActivity_calls_child: "extractCalledProcessID exampleCallActivity = Inr ''child''"
  by (simp add: extractCalledProcessID_def exampleCallActivity_def)

text \<open>
  C3, as stated, fails where the process component cannot start the child instance:
  the called process id is extracted and the token's context has no flag, but
  \<^verbatim>\<open>Execute\<close> returns a non-successful result without a waiting key and leaves the
  execution context without the flag.
\<close>

theorem C3_Execute_first_entry_counterexample:
  "GetExecutionContext (exampleToken ACTIVE '''' Map.empty)
       (callActivityKey (exampleToken ACTIVE '''' Map.empty)) = None
   \<and> extractCalledProcessID exampleCallActivity = Inr ''child''
   \<and> Execute (exampleCollaborators None (\<lambda>k. Inl ''process not found''))
        (exampleToken ACTIVE '''' Map.empty) exampleCallActivity []
     = (\<lparr>Success = False, TokenUpdated = False, NextElements = [], ResultWaitingFor = '''',
         Completed = False,
         ResultError = ''failed to start child process: process not found''\<rparr>,
        exampleToken ACTIVE '''' Map.empty, [],
        [CallStartProcessInstance ''child'' (Variables (exampleToken ACTIVE '''' Map.empty))])"
  by (simp add: Execute_def exampleCallActivity_calls_child GetExecutionContext_def
      exampleCollaborators_def exampleToken_def callActivityKey_def)

text \<open>
  C3, amended. For every token whose execution context does not contain
  \<^verbatim>\<open>call_activity_executed:<currentElementId>=true\<close>: when a called process id can be
  extracted from the element's extension elements, \<^verbatim>\<open>CallActivityExecutor.Execute\<close> asks
  the process component to start an instance of that process, passing the token's
  current variables; when the component returns the child instance, \<^verbatim>\<open>Execute\<close> sets
  \<^verbatim>\<open>call_activity_executed:<currentElementId>=true\<close> in the token's execution context and
  returns a suspend result with \<^verbatim>\<open>WaitingFor = call_activity:<childInstanceId>\<close>; when the
  component returns an error, \<^verbatim>\<open>Execute\<close> returns a non-successful result and leaves the
  token as it was. If no called process id can be extracted, it returns a non-successful
  result and starts no child instance.
\<close>

theorem C3_Execute_first_entry:
  assumes "GetExecutionContext token (callActivityKey token) \<noteq> Some (VBool True)"
  shows "(\<forall>calledProcessID child w'.
            extractCalledProcessID element = Inr calledProcessID \<and>
            StartProcessInstance cae calledProcessID (Variables token) w = (Inr child, w') \<longrightarrow>
              Execute cae token element w =
                (\<lparr>Success = True, TokenUpdated = True, NextElements = [],
                  ResultWaitingFor = ''call_activity:'' @ InstanceID child,
                  Completed = False, ResultError = ''''\<rparr>,
                 SetExecutionContext token (callActivityKey token) (VBool True), w',
                 [CallStartProcessInstance calledProcessID (Variables token)])
              \<and> GetExecutionContext
                    (SetExecutionContext token (callActivityKey token) (VBool True))
                    (callActivityKey token) = Some (VBool True))
         \<and> (\<forall>calledProcessID err w'.
              extractCalledProcessID element = Inr calledProcessID \<and>
              StartProcessInstance cae calledProcessID (Variables token) w = (Inl err, w') \<longrightarrow>
                (\<exists>res. Execute cae token element w =
                   (res, token, w', [CallStartProcessInstance calledProcessID (Variables token)])
                   \<and> \<not> Success res \<and> ResultWaitingFor res = ''''))
         \<and> (\<forall>err. extractCalledProcessID element = Inl err \<longrightarrow>
                (\<exists>res. Execute cae token element w = (res, token, w, [])
                   \<and> \<not> Success res \<and> ResultWaitingFor res = ''''))"
  using assms
  by (auto simp: Execute_def GetExecutionContext_def SetExecutionContext_def)

theorem C3_Execute_first_entry_witness:
  "GetExecutionContext (exampleToken ACTIVE '''' Map.empty)
       (callActivityKey (exampleToken ACTIVE '''' Map.empty)) \<noteq> Some (VBool True)
   \<and> Execute (exampleCollaborators None (\<lambda>k. Inr exampleChild))
        (exampleToken ACTIVE '''' Map.empty) exampleCallActivity []
     = (\<lparr>Success = True, TokenUpdated = True, NextElements = [],
         ResultWaitingFor = ''call_activity:child-1'', Completed = False, ResultError = ''''\<rparr>,
        SetExecutionContext (exampleToken ACTIVE '''' Map.empty)
          ''call_activity_executed:Call_1'' (VBool True),
        [''child-1''],
        [CallStartProcessInstance ''child'' [''x'' \<mapsto> VNum 1]])"
proof -
  let ?t = "exampleToken ACTIVE '''' Map.empty"
  let ?cae = "exampleCollaborators None (\<lambda>k. Inr exampleChild)"
  have h: "GetExecutionContext ?t (callActivityKey ?t) \<noteq> Some (VBool True)"
    by (simp add: GetExecutionContext_def exampleToken_def)
  have s: "StartProcessInstance ?cae ''child'' (Variables ?t) [] = (Inr exampleChild, [''child-1''])"
    by (simp add: exampleCollaborators_def exampleChild_def)
  from C3_Execute_first_entry[OF h, of exampleCallActivity ?cae "[]"]
    exampleCallActivity_calls_child s
  have "Execute ?cae ?t exampleCallActivity [] =
      (\<lparr>Success = True, TokenUpdated = True, NextElements = [],
        ResultWaitingFor = ''call_activity:'' @ InstanceID exampleChild,
        Completed = False, ResultError = ''''\<rparr>,
       SetExecutionContext ?t (callActivityKey ?t) (VBool True), [''child-1''],
       [CallStartProcessInstance ''child'' (Variables ?t)])"
    by blast
  moreover have "callActivityKey ?t = ''call_activity_executed:Call_1''"
    by (simp add: callActivityKey_def exampleToken_def)
  moreover have "Variables ?t = [''x'' \<mapsto> VNum 1]"
    by (simp add: exampleToken_def)
  moreover have "InstanceID exampleChild = ''child-1''"
    by (simp add: exampleChild_def)
  ultimately show ?thesis using h by simp
qed

text \<open>
  C4, as stated, fails: on resume \<^verbatim>\<open>Execute\<close> does not touch the token, so a variable
  of the completed child instance is not among the token's variables afterwards.
\<close>

theorem C4_Execute_resume_counterexample:
  "GetExecutionContext
       (exampleToken ACTIVE '''' [''call_activity_executed:Call_1'' \<mapsto> VBool True])
       (callActivityKey
          (exampleToken ACTIVE '''' [''call_activity_executed:Call_1'' \<mapsto> VBool True]))
     = Some (VBool True)
   \<and> InstanceVariables exampleChild ''result'' = Some (VNum 42)
   \<and> Variables (fst (snd (Execute (exampleCollaborators None (\<lambda>k. Inr exampleChild))
        (exampleToken ACTIVE '''' [''call_activity_executed:Call_1'' \<mapsto> VBool True])
        exampleCallActivity [''child-1'']))) ''result'' = None"
  by (simp add: Execute_def GetExecutionContext_def callActivityKey_def exampleToken_def
      exampleChild_def exampleCallActivity_def)

text \<open>
  C4, amended. For every token whose execution context already contains
  \<^verbatim>\<open>call_activity_executed:<currentElementId>=true\<close> (resume after child completion),
  \<^verbatim>\<open>CallActivityExecutor.Execute\<close> advances along the element's outgoing flows: it
  returns a successful result whose next elements are the string items of the element's
  \<^verbatim>\<open>outgoing\<close> attribute (a completed result with no next elements when the element has
  no \<^verbatim>\<open>outgoing\<close> attribute). It calls no collaborator and leaves the token, its variables
  included, as it was: \<^verbatim>\<open>Execute\<close> itself merges no variables.
\<close>

theorem C4_Execute_resume:
  assumes "GetExecutionContext token (callActivityKey token) = Some (VBool True)"
  shows "(\<forall>outgoing. map_of element ''outgoing'' = Some outgoing \<longrightarrow>
            Execute cae token element w =
              (\<lparr>Success = True, TokenUpdated = False, NextElements = nextElementsOf outgoing,
                ResultWaitingFor = '''', Completed = False, ResultError = ''''\<rparr>, token, w, []))
         \<and> (\<forall>outgoingList. map_of element ''outgoing'' = Some (VList outgoingList) \<longrightarrow>
              set (NextElements (fst (Execute cae token element w)))
                = {flowID. VStr flowID \<in> set outgoingList})
         \<and> (\<forall>outgoingStr. map_of element ''outgoing'' = Some (VStr outgoingStr) \<longrightarrow>
              NextElements (fst (Execute cae token element w)) = [outgoingStr])
         \<and> (map_of element ''outgoing'' = None \<longrightarrow>
              Execute cae token element w =
                (\<lparr>Success = True, TokenUpdated = True, NextElements = [],
                  ResultWaitingFor = '''', Completed = True, ResultError = ''''\<rparr>, token, w, []))"
  using assms
  by (auto simp: Execute_def nextElementsOf_def outgoingFlowIDs_set)

theorem C4_Execute_resume_witness:
  "Execute (exampleCollaborators None (\<lambda>k. Inr exampleChild))
        (exampleToken ACTIVE '''' [''call_activity_executed:Call_1'' \<mapsto> VBool True])
        exampleCallActivity [''child-1'']
     = (\<lparr>Success = True, TokenUpdated = False, NextElements = [''Flow_2''],
         ResultWaitingFor = '''', Completed = False, ResultError = ''''\<rparr>,
        exampleToken ACTIVE '''' [''call_activity_executed:Call_1'' \<mapsto> VBool True],
        [''child-1''], [])"
proof -
  let ?t = "exampleToken ACTIVE '''' [''call_activity_executed:Call_1'' \<mapsto> VBool True]"
  have h: "GetExecutionContext ?t (callActivityKey ?t) = Some (VBool True)"
    by (simp add: GetExecutionContext_def callActivityKey_def exampleToken_def)
  have o: "map_of exampleCallActivity ''outgoing'' = Some (VList [VStr ''Flow_2''])"
    by (simp add: exampleCallActivity_def)
  have n: "nextElementsOf (VList [VStr ''Flow_2'']) = [''Flow_2'']"
    by (simp add: nextElementsOf_def)
  from C4_Execute_resume[OF h, of exampleCallActivity
      "exampleCollaborators None (\<lambda>k. Inr exampleChild)" "[''child-1'']"] o n
  show ?thesis by simp
qed

section \<open>Parallel join\<close>

lemma parkToken_ids: "map TokenID (parkToken toks tokenID joinID) = map TokenID toks"
  by (induction toks) (simp_all add: parkToken_def)

lemma parkToken_parks_arriving:
  assumes "t \<in> set toks" and "TokenID t = tokenID" and "ProcessInstanceID t = instanceID"
  shows "\<exists>u \<in> set (parkToken toks tokenID joinID).
           TokenID u = tokenID \<and> isParkedAt instanceID joinID u"
proof -
  let ?u = "t\<lparr>CurrentElementID := joinID, State := WAITING\<rparr>"
  have "?u \<in> set (parkToken toks tokenID joinID)"
    using assms(1,2) by (force simp: parkToken_def)
  moreover have "TokenID ?u = tokenID \<and> isParkedAt instanceID joinID ?u"
    using assms(2,3) by (simp add: isParkedAt_def)
  ultimately show ?thesis by blast
qed

text \<open>In a store with distinct ids, the ids of the parked tokens identify them.\<close>

lemma parked_id_iff:
  assumes "distinct (map TokenID xs)" and "t \<in> set xs"
  shows "TokenID t \<in> TokenID ` set (parkedAt xs instanceID joinID)
         \<longleftrightarrow> isParkedAt instanceID joinID t"
proof
  assume "TokenID t \<in> TokenID ` set (parkedAt xs instanceID joinID)"
  then obtain u where u: "u \<in> set xs" "isParkedAt instanceID joinID u" "TokenID u = TokenID t"
    by (auto simp: parkedAt_def)
  from assms(1) u(1) assms(2) u(3) have "u = t"
    by (meson distinct_map inj_onD)
  with u(2) show "isParkedAt instanceID joinID t" by simp
next
  assume "isParkedAt instanceID joinID t"
  with assms(2) show "TokenID t \<in> TokenID ` set (parkedAt xs instanceID joinID)"
    by (auto simp: parkedAt_def)
qed

lemma fireJoin_cancelled:
  assumes "distinct (map TokenID xs)"
  shows "[t \<leftarrow> fireJoin xs survivorID instanceID joinID.
            TokenID t \<in> TokenID ` set (parkedAt xs instanceID joinID) \<and> State t = CANCELLED]
         = map (\<lambda>t. t\<lparr>State := CANCELLED\<rparr>)
             [t \<leftarrow> xs. isParkedAt instanceID joinID t \<and> TokenID t \<noteq> survivorID]"
proof -
  let ?ids = "TokenID ` set (parkedAt xs instanceID joinID)"
  let ?g = "\<lambda>t. if isParkedAt instanceID joinID t
                then (if TokenID t = survivorID
                      then t\<lparr>State := ACTIVE,
                             Variables := mergeOverlays (parkedAt xs instanceID joinID)\<rparr>
                      else t\<lparr>State := CANCELLED\<rparr>)
                else t"
  have fire: "fireJoin xs survivorID instanceID joinID = map ?g xs"
    by (simp add: fireJoin_def Let_def)
  have sel: "(TokenID (?g t) \<in> ?ids \<and> State (?g t) = CANCELLED)
             \<longleftrightarrow> (isParkedAt instanceID joinID t \<and> TokenID t \<noteq> survivorID)"
    if "t \<in> set xs" for t
  proof (cases "isParkedAt instanceID joinID t")
    case True
    with parked_id_iff[OF assms that, of instanceID joinID] show ?thesis
      by (cases "TokenID t = survivorID") simp_all
  next
    case False
    with parked_id_iff[OF assms that, of instanceID joinID] show ?thesis by simp
  qed
  have "[t \<leftarrow> map ?g xs. TokenID t \<in> ?ids \<and> State t = CANCELLED]
        = map ?g [t \<leftarrow> xs. TokenID (?g t) \<in> ?ids \<and> State (?g t) = CANCELLED]"
    by (simp add: filter_map comp_def)
  also have "[t \<leftarrow> xs. TokenID (?g t) \<in> ?ids \<and> State (?g t) = CANCELLED]
        = [t \<leftarrow> xs. isParkedAt instanceID joinID t \<and> TokenID t \<noteq> survivorID]"
    by (rule filter_cong[OF refl]) (rule sel)
  also have "map ?g [t \<leftarrow> xs. isParkedAt instanceID joinID t \<and> TokenID t \<noteq> survivorID]
        = map (\<lambda>t. t\<lparr>State := CANCELLED\<rparr>)
            [t \<leftarrow> xs. isParkedAt instanceID joinID t \<and> TokenID t \<noteq> survivorID]"
    by (rule map_cong[OF refl]) simp
  finally show ?thesis unfolding fire .
qed

lemma fireJoin_survivor:
  assumes "distinct (map TokenID xs)"
  shows "[t \<leftarrow> fireJoin xs survivorID instanceID joinID.
            TokenID t \<in> TokenID ` set (parkedAt xs instanceID joinID) \<and> State t \<noteq> CANCELLED]
         = map (\<lambda>t. t\<lparr>State := ACTIVE,
                       Variables := mergeOverlays (parkedAt xs instanceID joinID)\<rparr>)
             [t \<leftarrow> xs. isParkedAt instanceID joinID t \<and> TokenID t = survivorID]"
proof -
  let ?ids = "TokenID ` set (parkedAt xs instanceID joinID)"
  let ?g = "\<lambda>t. if isParkedAt instanceID joinID t
                then (if TokenID t = survivorID
                      then t\<lparr>State := ACTIVE,
                             Variables := mergeOverlays (parkedAt xs instanceID joinID)\<rparr>
                      else t\<lparr>State := CANCELLED\<rparr>)
                else t"
  have fire: "fireJoin xs survivorID instanceID joinID = map ?g xs"
    by (simp add: fireJoin_def Let_def)
  have sel: "(TokenID (?g t) \<in> ?ids \<and> State (?g t) \<noteq> CANCELLED)
             \<longleftrightarrow> (isParkedAt instanceID joinID t \<and> TokenID t = survivorID)"
    if "t \<in> set xs" for t
  proof (cases "isParkedAt instanceID joinID t")
    case True
    with parked_id_iff[OF assms that, of instanceID joinID] show ?thesis
      by (cases "TokenID t = survivorID") simp_all
  next
    case False
    with parked_id_iff[OF assms that, of instanceID joinID] show ?thesis by simp
  qed
  have "[t \<leftarrow> map ?g xs. TokenID t \<in> ?ids \<and> State t \<noteq> CANCELLED]
        = map ?g [t \<leftarrow> xs. TokenID (?g t) \<in> ?ids \<and> State (?g t) \<noteq> CANCELLED]"
    by (simp add: filter_map comp_def)
  also have "[t \<leftarrow> xs. TokenID (?g t) \<in> ?ids \<and> State (?g t) \<noteq> CANCELLED]
        = [t \<leftarrow> xs. isParkedAt instanceID joinID t \<and> TokenID t = survivorID]"
    by (rule filter_cong[OF refl]) (rule sel)
  also have "map ?g [t \<leftarrow> xs. isParkedAt instanceID joinID t \<and> TokenID t = survivorID]
        = map (\<lambda>t. t\<lparr>State := ACTIVE,
                      Variables := mergeOverlays (parkedAt xs instanceID joinID)\<rparr>)
            [t \<leftarrow> xs. isParkedAt instanceID joinID t \<and> TokenID t = survivorID]"
    by (rule map_cong[OF refl]) simp
  finally show ?thesis unfolding fire .
qed

lemma fireJoin_none_parked:
  "parkedAt (fireJoin xs survivorID instanceID joinID) instanceID joinID = []"
proof -
  let ?g = "\<lambda>t. if isParkedAt instanceID joinID t
                then (if TokenID t = survivorID
                      then t\<lparr>State := ACTIVE,
                             Variables := mergeOverlays (parkedAt xs instanceID joinID)\<rparr>
                      else t\<lparr>State := CANCELLED\<rparr>)
                else t"
  have fire: "fireJoin xs survivorID instanceID joinID = map ?g xs"
    by (simp add: fireJoin_def Let_def)
  have "\<not> isParkedAt instanceID joinID (?g t)" for t
  proof (cases "isParkedAt instanceID joinID t")
    case True
    then show ?thesis
      by (cases "TokenID t = survivorID") (simp_all add: isParkedAt_def)
  next
    case False
    then show ?thesis by simp
  qed
  then have "\<forall>u \<in> set (map ?g xs). \<not> isParkedAt instanceID joinID u"
    unfolding set_map by blast
  then show ?thesis
    unfolding fire parkedAt_def filter_empty_conv .
qed

lemma one_with_id:
  "distinct (map f xs) \<Longrightarrow> x \<in> set xs \<Longrightarrow> P x \<Longrightarrow>
   length [t \<leftarrow> xs. P t \<and> f t = f x] = 1"
proof (induction xs)
  case Nil
  then show ?case by simp
next
  case (Cons a xs)
  show ?case
  proof (cases "a = x")
    case True
    from Cons.prems(1) True have "f x \<notin> f ` set xs" by simp
    then have "\<forall>t \<in> set xs. f t \<noteq> f x" by (metis imageI)
    then have "[t \<leftarrow> xs. P t \<and> f t = f x] = []" by (simp add: filter_empty_conv)
    with True Cons.prems(3) show ?thesis by simp
  next
    case False
    with Cons.prems(2) have x: "x \<in> set xs" by simp
    with Cons.prems(1) have "f a \<noteq> f x" by auto
    moreover from Cons.prems(1) have "distinct (map f xs)" by simp
    ultimately show ?thesis using Cons.IH x Cons.prems(3) by simp
  qed
qed

lemma split_by_id:
  "length [t \<leftarrow> xs. P t \<and> f t \<noteq> s] + length [t \<leftarrow> xs. P t \<and> f t = s] = length (filter P xs)"
  by (induction xs) auto

text \<open>
  C5. For every parallel-join firing at a join element with \<open>K\<close> incoming flows, exactly
  \<open>K\<close> parked sibling tokens of the same instance are consumed: \<open>K\<close> tokens are parked at
  the join when it fires and none is parked there afterwards; of these \<open>K\<close> tokens,
  \<open>K - 1\<close> are CANCELLED afterwards and exactly one, the survivor, is not: it is ACTIVE
  and advances along the outgoing flows.
\<close>

theorem C5_parallel_join_consumes_K_one_survives:
  assumes "distinct (map TokenID toks)"
      and "\<exists>t \<in> set toks. TokenID t = tokenID \<and> ProcessInstanceID t = instanceID"
      and "arriveAtParallelJoin toks tokenID instanceID joinID incoming outgoing
             = (toks', Some fired)"
      and "consumed = parkedAt (parkToken toks tokenID joinID) instanceID joinID"
  shows "length consumed = length incoming
         \<and> parkedAt toks' instanceID joinID = []
         \<and> length [t \<leftarrow> toks'. TokenID t \<in> TokenID ` set consumed \<and> State t = CANCELLED]
             = length incoming - 1
         \<and> length [t \<leftarrow> toks'. TokenID t \<in> TokenID ` set consumed \<and> State t \<noteq> CANCELLED]
             = 1
         \<and> (\<forall>t \<in> set toks'. TokenID t \<in> TokenID ` set consumed \<and> State t \<noteq> CANCELLED
               \<longrightarrow> TokenID t = tokenID \<and> State t = ACTIVE)
         \<and> fired = (tokenID, outgoing)"
proof -
  let ?xs = "parkToken toks tokenID joinID"
  have fires: "length (parkedAt ?xs instanceID joinID) = length incoming"
    and toks': "toks' = fireJoin ?xs tokenID instanceID joinID"
    and fired: "fired = (tokenID, outgoing)"
    using assms(3) by (auto simp: arriveAtParallelJoin_def Let_def split: if_splits)
  have d: "distinct (map TokenID ?xs)"
    using assms(1) by (simp add: parkToken_ids)
  from assms(2) obtain u where u: "u \<in> set ?xs" "TokenID u = tokenID"
      "isParkedAt instanceID joinID u"
    using parkToken_parks_arriving by blast
  have one: "length [t \<leftarrow> ?xs. isParkedAt instanceID joinID t \<and> TokenID t = tokenID] = 1"
    using one_with_id[OF d u(1), of "isParkedAt instanceID joinID"] u(2,3) by simp
  have rest: "length [t \<leftarrow> ?xs. isParkedAt instanceID joinID t \<and> TokenID t \<noteq> tokenID]
      = length incoming - 1"
    using split_by_id[of "isParkedAt instanceID joinID" TokenID tokenID ?xs] one fires
    by (simp add: parkedAt_def)
  have c1: "length consumed = length incoming"
    using fires assms(4) by simp
  have c2: "parkedAt toks' instanceID joinID = []"
    unfolding toks' by (rule fireJoin_none_parked)
  have c3: "length [t \<leftarrow> toks'. TokenID t \<in> TokenID ` set consumed \<and> State t = CANCELLED]
      = length incoming - 1"
    unfolding toks' assms(4) fireJoin_cancelled[OF d] using rest by simp
  have surv: "[t \<leftarrow> toks'. TokenID t \<in> TokenID ` set consumed \<and> State t \<noteq> CANCELLED]
      = map (\<lambda>t. t\<lparr>State := ACTIVE,
                    Variables := mergeOverlays (parkedAt ?xs instanceID joinID)\<rparr>)
          [t \<leftarrow> ?xs. isParkedAt instanceID joinID t \<and> TokenID t = tokenID]"
    unfolding toks' assms(4) by (rule fireJoin_survivor[OF d])
  have c4: "length [t \<leftarrow> toks'. TokenID t \<in> TokenID ` set consumed \<and> State t \<noteq> CANCELLED] = 1"
    unfolding surv using one by simp
  have c5: "\<forall>t \<in> set toks'. TokenID t \<in> TokenID ` set consumed \<and> State t \<noteq> CANCELLED
      \<longrightarrow> TokenID t = tokenID \<and> State t = ACTIVE"
  proof (intro ballI impI)
    fix t assume "t \<in> set toks'"
      and "TokenID t \<in> TokenID ` set consumed \<and> State t \<noteq> CANCELLED"
    then have "t \<in> set [t \<leftarrow> toks'. TokenID t \<in> TokenID ` set consumed \<and> State t \<noteq> CANCELLED]"
      by simp
    then show "TokenID t = tokenID \<and> State t = ACTIVE"
      unfolding surv by auto
  qed
  from c1 c2 c3 c4 c5 fired show ?thesis by blast
qed

theorem C5_parallel_join_witness:
  "distinct (map TokenID exampleJoinStore)
   \<and> (\<exists>t \<in> set exampleJoinStore. TokenID t = ''tB'' \<and> ProcessInstanceID t = ''i1'')
   \<and> snd (arriveAtParallelJoin exampleJoinStore ''tB'' ''i1'' ''Join_1''
            [''Flow_A'', ''Flow_B''] [''Flow_out'']) = Some (''tB'', [''Flow_out''])
   \<and> length (parkedAt (parkToken exampleJoinStore ''tB'' ''Join_1'') ''i1'' ''Join_1'') = 2
   \<and> map (\<lambda>t. (TokenID t, State t, Variables t ''k''))
        (fst (arriveAtParallelJoin exampleJoinStore ''tB'' ''i1'' ''Join_1''
               [''Flow_A'', ''Flow_B''] [''Flow_out'']))
       = [(''tA'', CANCELLED, Some (VStr ''A'')), (''tB'', ACTIVE, Some (VStr ''B''))]
   \<and> length [t \<leftarrow> fst (arriveAtParallelJoin exampleJoinStore ''tB'' ''i1'' ''Join_1''
                        [''Flow_A'', ''Flow_B''] [''Flow_out'']).
              TokenID t \<in> TokenID ` set (parkedAt (parkToken exampleJoinStore ''tB'' ''Join_1'')
                                          ''i1'' ''Join_1'')
              \<and> State t = CANCELLED] = 1"
proof -
  let ?r = "arriveAtParallelJoin exampleJoinStore ''tB'' ''i1'' ''Join_1''
              [''Flow_A'', ''Flow_B''] [''Flow_out'']"
  have h1: "distinct (map TokenID exampleJoinStore)"
    by (simp add: exampleJoinStore_def)
  have h2: "\<exists>t \<in> set exampleJoinStore. TokenID t = ''tB'' \<and> ProcessInstanceID t = ''i1''"
    by (simp add: exampleJoinStore_def)
  have n: "length (parkedAt (parkToken exampleJoinStore ''tB'' ''Join_1'') ''i1'' ''Join_1'') = 2"
    by (simp add: exampleJoinStore_def parkToken_def parkedAt_def isParkedAt_def)
  then have s: "snd ?r = Some (''tB'', [''Flow_out''])"
    by (simp add: arriveAtParallelJoin_def Let_def)
  then have h3: "?r = (fst ?r, Some (''tB'', [''Flow_out'']))"
    by (metis prod.collapse)
  have m: "map (\<lambda>t. (TokenID t, State t, Variables t ''k'')) (fst ?r)
       = [(''tA'', CANCELLED, Some (VStr ''A'')), (''tB'', ACTIVE, Some (VStr ''B''))]"
    using n
    by (simp add: arriveAtParallelJoin_def Let_def fireJoin_def exampleJoinStore_def
        parkToken_def parkedAt_def isParkedAt_def mergeOverlays_def writesBefore_def)
  from C5_parallel_join_consumes_K_one_survives[OF h1 h2 h3 refl]
  have "length [t \<leftarrow> fst ?r.
              TokenID t \<in> TokenID ` set (parkedAt (parkToken exampleJoinStore ''tB'' ''Join_1'')
                                          ''i1'' ''Join_1'')
              \<and> State t = CANCELLED] = length [''Flow_A'', ''Flow_B''] - 1"
    by blast
  with h1 h2 s n m show ?thesis by simp
qed

end
